theory Spec2Isabelle
  imports Complex_Main "HOL-Library.List_Lexorder" "HOL-Library.Char_ord"
    "HOL-Library.Word" "HOL-Library.Signed_Division"
begin

section \<open>Data of the order statistics engine\<close>

subsection \<open>Doubles\<close>

text \<open>
  A double is a real number with a significand of 53 bits, an infinity, or NaN (the two
  zeros are not told apart). An arithmetic operation on finite doubles gives the exact
  result when that is a double. Otherwise it gives the result of the rounding of the
  machine, which is a parameter of the model (a function on the reals, such as
  \<open>round_to_nearest\<close> below); a rounded result of magnitude \<open>2 ^ 1024\<close> or more is an
  infinity. \<open>vtkIdType\<close> is modelled by the integers.
\<close>

datatype double = Finite real | PlusInfinity | MinusInfinity | NaN

definition is_double :: "real \<Rightarrow> bool" where
  "is_double x \<longleftrightarrow> (\<exists>m j. \<bar>m\<bar> < 2 ^ 53 \<and> - 1074 \<le> j \<and> x = real_of_int m * 2 powi j)"

definition fl :: "(real \<Rightarrow> real) \<Rightarrow> real \<Rightarrow> real" where
  "fl rnd x = (if is_double x then x else rnd x)"

definition to_double :: "(real \<Rightarrow> real) \<Rightarrow> real \<Rightarrow> double" where
  "to_double rnd x =
     (let r = fl rnd x
      in if 2 ^ 1024 \<le> r then PlusInfinity
         else if r \<le> - (2 ^ 1024) then MinusInfinity
         else Finite r)"

text \<open>
  The rounding to nearest, ties to even, which is the rounding of IEEE 754 that a program
  runs with unless it asks for another one (this one does not). The exponent of the last
  place is 52 below the exponent of the number, and at least the one of the subnormal
  doubles; the multiple of the unit in the last place is rounded to the nearest integer,
  a tie to the even one.
\<close>

definition binade :: "real \<Rightarrow> int" where
  "binade x = \<lfloor>log 2 \<bar>x\<bar>\<rfloor>"

definition round_half_even :: "real \<Rightarrow> int" where
  "round_half_even q =
     (let f = \<lfloor>q\<rfloor>
      in if q - real_of_int f < 1 / 2 then f
         else if 1 / 2 < q - real_of_int f then f + 1
         else if even f then f else f + 1)"

definition round_to_nearest :: "real \<Rightarrow> real" where
  "round_to_nearest x =
     (if x = 0 then 0
      else (let j = max (binade x - 52) (- 1074)
            in sgn x * (real_of_int (round_half_even (\<bar>x\<bar> / 2 powi j)) * 2 powi j)))"

text \<open>The sum and the product of two doubles.\<close>

fun dadd :: "(real \<Rightarrow> real) \<Rightarrow> double \<Rightarrow> double \<Rightarrow> double" where
  "dadd rnd NaN b = NaN"
| "dadd rnd a NaN = NaN"
| "dadd rnd (Finite x) (Finite y) = to_double rnd (x + y)"
| "dadd rnd PlusInfinity MinusInfinity = NaN"
| "dadd rnd MinusInfinity PlusInfinity = NaN"
| "dadd rnd PlusInfinity b = PlusInfinity"
| "dadd rnd a PlusInfinity = PlusInfinity"
| "dadd rnd MinusInfinity b = MinusInfinity"
| "dadd rnd a MinusInfinity = MinusInfinity"

fun dmul :: "(real \<Rightarrow> real) \<Rightarrow> double \<Rightarrow> double \<Rightarrow> double" where
  "dmul rnd NaN b = NaN"
| "dmul rnd a NaN = NaN"
| "dmul rnd (Finite x) (Finite y) = to_double rnd (x * y)"
| "dmul rnd (Finite x) PlusInfinity =
     (if x = 0 then NaN else if 0 < x then PlusInfinity else MinusInfinity)"
| "dmul rnd (Finite x) MinusInfinity =
     (if x = 0 then NaN else if 0 < x then MinusInfinity else PlusInfinity)"
| "dmul rnd PlusInfinity (Finite y) =
     (if y = 0 then NaN else if 0 < y then PlusInfinity else MinusInfinity)"
| "dmul rnd MinusInfinity (Finite y) =
     (if y = 0 then NaN else if 0 < y then MinusInfinity else PlusInfinity)"
| "dmul rnd PlusInfinity PlusInfinity = PlusInfinity"
| "dmul rnd PlusInfinity MinusInfinity = MinusInfinity"
| "dmul rnd MinusInfinity PlusInfinity = MinusInfinity"
| "dmul rnd MinusInfinity MinusInfinity = PlusInfinity"

text \<open>The comparisons \<open><\<close> and \<open><=\<close> of doubles: both are false when an operand is NaN.\<close>

fun double_less :: "double \<Rightarrow> double \<Rightarrow> bool" where
  "double_less NaN b = False"
| "double_less a NaN = False"
| "double_less (Finite x) (Finite y) = (x < y)"
| "double_less a MinusInfinity = False"
| "double_less MinusInfinity b = True"
| "double_less PlusInfinity b = False"
| "double_less a PlusInfinity = True"

fun double_le :: "double \<Rightarrow> double \<Rightarrow> bool" where
  "double_le NaN b = False"
| "double_le a NaN = False"
| "double_le (Finite x) (Finite y) = (x \<le> y)"
| "double_le MinusInfinity b = True"
| "double_le a MinusInfinity = False"
| "double_le a PlusInfinity = True"
| "double_le PlusInfinity b = False"

text \<open>The conversion of a \<open>vtkIdType\<close> to a double.\<close>

definition double_of_int :: "(real \<Rightarrow> real) \<Rightarrow> int \<Rightarrow> double" where
  "double_of_int rnd i = to_double rnd (real_of_int i)"

subsection \<open>Arrays, tables and blocks\<close>

datatype vtkVariant = VariantDouble double | VariantInt int | VariantString string | VariantOther

datatype vtkAbstractArray =
    vtkDoubleArray "double list"
  | vtkIdTypeArray "int list"
  | vtkStringArray "string list"
  | vtkVariantArray "vtkVariant list"
  | vtkOtherArray nat

text \<open>\<open>GetNumberOfTuples\<close>; an array of another class carries only its size.\<close>

fun GetNumberOfTuples :: "vtkAbstractArray \<Rightarrow> nat" where
  "GetNumberOfTuples (vtkDoubleArray xs) = length xs"
| "GetNumberOfTuples (vtkIdTypeArray xs) = length xs"
| "GetNumberOfTuples (vtkStringArray xs) = length xs"
| "GetNumberOfTuples (vtkVariantArray xs) = length xs"
| "GetNumberOfTuples (vtkOtherArray n) = n"

text \<open>
  A \<open>vtkTable\<close> is its list of named columns; its number of rows is the size of its
  first column. Every column of a table has that many entries.
\<close>

type_synonym vtkTable = "(string \<times> vtkAbstractArray) list"

definition GetNumberOfRows :: "vtkTable \<Rightarrow> nat" where
  "GetNumberOfRows tab = (case tab of [] \<Rightarrow> 0 | (name, col) # rest \<Rightarrow> GetNumberOfTuples col)"

definition GetColumnByName :: "vtkTable \<Rightarrow> string \<Rightarrow> vtkAbstractArray option" where
  "GetColumnByName tab name = map_of tab name"

text \<open>\<open>AddColumn\<close> (appends) and the replacement of the array stored under a name.\<close>

definition AddColumn :: "vtkTable \<Rightarrow> string \<Rightarrow> vtkAbstractArray \<Rightarrow> vtkTable" where
  "AddColumn tab name col = tab @ [(name, col)]"

fun SetColumn :: "vtkTable \<Rightarrow> string \<Rightarrow> vtkAbstractArray \<Rightarrow> vtkTable" where
  "SetColumn [] name col = []"
| "SetColumn ((name', col') # rest) name col =
     (if name' = name then (name', col) # rest else (name', col') # SetColumn rest name col)"

text \<open>
  A block of a \<open>vtkMultiBlockDataSet\<close> is a table, a data object of another class, or
  absent (a null pointer, \<open>None\<close>); each block carries the name of its meta-data.
\<close>

datatype vtkDataObject = Table vtkTable | OtherDataObject

type_synonym vtkMultiBlockDataSet = "(string \<times> vtkDataObject option) list"

text \<open>\<open>vtkTable::SafeDownCast\<close> of a block.\<close>

fun SafeDownCast_vtkTable :: "vtkDataObject option \<Rightarrow> vtkTable option" where
  "SafeDownCast_vtkTable (Some (Table tab)) = Some tab"
| "SafeDownCast_vtkTable (Some OtherDataObject) = None"
| "SafeDownCast_vtkTable None = None"

text \<open>
  The element read at an index of an array. A read outside the array is undefined in
  C++; the model continues with the value found there, which is a parameter (a function
  of the index), so that the checks the source makes after such a read can be reached.
\<close>

definition read_at :: "(int \<Rightarrow> 'a) \<Rightarrow> 'a list \<Rightarrow> int \<Rightarrow> 'a" where
  "read_at beyond xs i = (if 0 \<le> i \<and> i < int (length xs) then xs ! nat i else beyond i)"

text \<open>
  What the model takes from outside the text of the program: what lies behind the
  arrays, and the rounding of the results that are no doubles.
\<close>

record outside =
  cdf_outside :: "int \<Rightarrow> int"
  double_outside :: "int \<Rightarrow> double"
  string_outside :: "int \<Rightarrow> string"
  variant_outside :: "int \<Rightarrow> vtkVariant"
  rounding :: "real \<Rightarrow> real"

datatype QuantileDefinitionType = InverseCDF | InverseCDFAveragedSteps

record vtkOrderStatistics =
  NumberOfIntervals :: int
  QuantileDefinition :: QuantileDefinitionType

text \<open>
  C's \<open>round\<close> (halves away from zero) and the cast to an integer type, of a finite
  double.
\<close>

definition c_round :: "real \<Rightarrow> int" where
  "c_round x = (if 0 \<le> x then \<lfloor>x + 1 / 2\<rfloor> else \<lceil>x - 1 / 2\<rceil>)"

definition c_trunc :: "real \<Rightarrow> int" where
  "c_trunc x = (if 0 \<le> x then \<lfloor>x\<rfloor> else \<lceil>x\<rceil>)"

section \<open>The learn phase\<close>

text \<open>
  \<open>Learn\<close> counts the values of a column in a \<^verbatim>\<open>std::map\<close> from values to counts, and
  stores the entries in ascending order of the values after the cardinality row. The map
  is modelled by the list of its entries in ascending order. The order is that of the key
  type: of doubles for a numeric column (whose values are read as doubles), of strings
  for a column of strings. The order of variants (\<open>vtkVariant::operator<\<close>) is not part
  of this file of the repository and is a parameter. A key that is neither below nor
  above an entry is taken for the key of that entry (as NaN is for every entry it is
  compared with).
\<close>

text \<open>\<^verbatim>\<open>++ histogram[key]\<close>: a missing key is created with the count 0 first.\<close>

fun histogram_increment :: "('k \<Rightarrow> 'k \<Rightarrow> bool) \<Rightarrow> 'k \<Rightarrow> ('k \<times> int) list \<Rightarrow> ('k \<times> int) list" where
  "histogram_increment precedes key [] = [(key, 0 + 1)]"
| "histogram_increment precedes key ((k, c) # h) =
     (if precedes key k then (key, 0 + 1) # (k, c) # h
      else if precedes k key then (k, c) # histogram_increment precedes key h
      else (k, c + 1) # h)"

definition calculate_histogram :: "('k \<Rightarrow> 'k \<Rightarrow> bool) \<Rightarrow> 'k list \<Rightarrow> ('k \<times> int) list" where
  "calculate_histogram precedes vals = foldl (\<lambda>h v. histogram_increment precedes v h) [] vals"

text \<open>
  The histogram table of one column of \<open>nRow\<close> values: the cardinality row (no value,
  and the invalid cardinality \<open>-1\<close>) followed by the entries of the histogram; \<open>None\<close> is
  the warning for an unsupported class. The value of the cardinality row of a numeric
  column is NaN.
\<close>

definition histogram_table ::
  "outside \<Rightarrow> (vtkVariant \<Rightarrow> vtkVariant \<Rightarrow> bool) \<Rightarrow> vtkAbstractArray \<Rightarrow> nat \<Rightarrow> vtkTable option" where
  "histogram_table mem variant_less vals nRow =
     (case vals of
        vtkDoubleArray dvals \<Rightarrow>
          (let histogram = calculate_histogram double_less (take nRow dvals)
           in Some [(''Value'', vtkDoubleArray (NaN # map fst histogram)),
                    (''Cardinality'', vtkIdTypeArray (- 1 # map snd histogram))])
      | vtkIdTypeArray ivals \<Rightarrow>
          (let histogram = calculate_histogram double_less
                 (take nRow (map (double_of_int (rounding mem)) ivals))
           in Some [(''Value'', vtkDoubleArray (NaN # map fst histogram)),
                    (''Cardinality'', vtkIdTypeArray (- 1 # map snd histogram))])
      | vtkStringArray svals \<Rightarrow>
          (let histogram = calculate_histogram (<) (take nRow svals)
           in Some [(''Value'', vtkStringArray ([] # map fst histogram)),
                    (''Cardinality'', vtkIdTypeArray (- 1 # map snd histogram))])
      | vtkVariantArray vvals \<Rightarrow>
          (let histogram = calculate_histogram variant_less (take nRow vvals)
           in Some [(''Value'', vtkVariantArray (VariantString [] # map fst histogram)),
                    (''Cardinality'', vtkIdTypeArray (- 1 # map snd histogram))])
      | vtkOtherArray m \<Rightarrow> None)"

text \<open>
  The loop over the requests (each given by its first column name): a histogram table is
  appended to \<open>outMeta\<close> as a block named after the column; a column that is missing or
  of an unsupported class is skipped with a warning.
\<close>

fun learn_requests ::
  "outside \<Rightarrow> (vtkVariant \<Rightarrow> vtkVariant \<Rightarrow> bool) \<Rightarrow> vtkTable \<Rightarrow> string list
     \<Rightarrow> vtkMultiBlockDataSet \<Rightarrow> vtkMultiBlockDataSet" where
  "learn_requests mem variant_less inData [] outMeta = outMeta"
| "learn_requests mem variant_less inData (col # requests) outMeta =
     (case GetColumnByName inData col of
        None \<Rightarrow> learn_requests mem variant_less inData requests outMeta
      | Some vals \<Rightarrow>
          (case histogram_table mem variant_less vals (GetNumberOfRows inData) of
             None \<Rightarrow> learn_requests mem variant_less inData requests outMeta
           | Some histogramTab \<Rightarrow>
               learn_requests mem variant_less inData requests
                 (outMeta @ [(col, Some (Table histogramTab))])))"

text \<open>\<open>Learn\<close>: \<open>outMeta\<close> as the call leaves it; both pointers may be null (\<open>None\<close>).\<close>

definition Learn ::
  "outside \<Rightarrow> (vtkVariant \<Rightarrow> vtkVariant \<Rightarrow> bool) \<Rightarrow> string list \<Rightarrow> vtkTable option
     \<Rightarrow> vtkMultiBlockDataSet option \<Rightarrow> vtkMultiBlockDataSet option" where
  "Learn mem variant_less requests inData outMeta =
     (case inData of
        None \<Rightarrow> outMeta
      | Some data \<Rightarrow>
          (case outMeta of
             None \<Rightarrow> None
           | Some blocks \<Rightarrow> Some (learn_requests mem variant_less data requests blocks)))"

section \<open>The derive phase\<close>

subsection \<open>Labels of the quantile table\<close>

text \<open>
  \<open>Derive\<close> labels row \<open>i\<close> of the quantile table from \<^verbatim>\<open>div( i << 2, NumberOfIntervals )\<close>
  on C \<open>int\<close>s: the shift is taken on 32 bits, and \<open>div\<close> truncates towards zero.
\<close>

definition shift_left_2 :: "int \<Rightarrow> int" where
  "shift_left_2 i = sint (push_bit 2 (word_of_int i :: 32 word))"

text \<open>
  The text of the general label is \<^verbatim>\<open>vtkVariant( i * dq ).ToString() + "-quantile"\<close>
  with \<open>dq = 1. / NumberOfIntervals\<close>, both computed in doubles.
  \<open>vtkVariant::ToString\<close> is not part of this file of the repository: it is the
  parameter \<open>ToString\<close>.
\<close>

definition label_fraction :: "outside \<Rightarrow> int \<Rightarrow> int \<Rightarrow> double" where
  "label_fraction mem N i =
     (let dq = to_double (rounding mem) (1 / fl (rounding mem) (real_of_int N))
      in dmul (rounding mem) (double_of_int (rounding mem) i) dq)"

definition general_label :: "(vtkVariant \<Rightarrow> string) \<Rightarrow> outside \<Rightarrow> int \<Rightarrow> int \<Rightarrow> string" where
  "general_label ToString mem N i = ToString (VariantDouble (label_fraction mem N i)) @ ''-quantile''"

definition quantile_label :: "(vtkVariant \<Rightarrow> string) \<Rightarrow> outside \<Rightarrow> int \<Rightarrow> int \<Rightarrow> string" where
  "quantile_label ToString mem N i =
     (let quot = shift_left_2 i sdiv N;
          rem = shift_left_2 i smod N
      in if rem \<noteq> 0 then general_label ToString mem N i
         else if quot = 0 then ''Minimum''
         else if quot = 1 then ''First Quartile''
         else if quot = 2 then ''Median''
         else if quot = 3 then ''Third Quartile''
         else if quot = 4 then ''Maximum''
         else general_label ToString mem N i)"

text \<open>
  The label column after the loop \<^verbatim>\<open>for ( int i = 0; i <= NumberOfIntervals; ++ i )\<close>.
  The integer division by \<open>NumberOfIntervals = 0\<close> has no result (\<open>None\<close>).
\<close>

definition quantile_labels :: "(vtkVariant \<Rightarrow> string) \<Rightarrow> outside \<Rightarrow> int \<Rightarrow> string list option" where
  "quantile_labels ToString mem N =
     (if N = 0 then None else Some (map (quantile_label ToString mem N) [0..N]))"

subsection \<open>Ranks of the quantiles in the histogram\<close>

text \<open>
  \<open>Derive\<close> fills \<^verbatim>\<open>cdf[r]\<close> for \<open>1 \<le> r < nRowHist\<close> with the running sum of the
  cardinalities of the rows \<open>1..r\<close> (row 0 is the cardinality row and is skipped). The
  array has \<open>nRowHist\<close> entries and entry 0 is never written: every other read is a read
  outside what was written.
\<close>

definition cdf_at :: "(int \<Rightarrow> int) \<Rightarrow> int list \<Rightarrow> int \<Rightarrow> int" where
  "cdf_at beyond cards r =
     (if 1 \<le> r \<and> r < int (length cards) then sum_list (take (nat r) (tl cards)) else beyond r)"

datatype derive_error =
    InconsistentQuantileTable int int int
  | UndefinedBehaviour

text \<open>
  The loop \<^verbatim>\<open>while ( qIdx > cdf[rank] ) { ++ rank; if ( rank > nRowHist ) { error; return; } }\<close>.
  The error carries the rank, the CDF read there and the quantile index of the message.
\<close>

function advance_rank :: "(int \<Rightarrow> int) \<Rightarrow> int \<Rightarrow> int \<Rightarrow> int \<Rightarrow> derive_error + int" where
  "advance_rank cdf nRowHist qIdx rank =
     (if qIdx > cdf rank
      then (if rank + 1 > nRowHist
            then Inl (InconsistentQuantileTable (rank + 1) (cdf (rank + 1)) qIdx)
            else advance_rank cdf nRowHist qIdx (rank + 1))
      else Inr rank)"
  by pat_completeness auto
termination
  by (relation "measure (\<lambda>(cdf, nRowHist, qIdx, rank). nat (nRowHist + 1 - rank))") auto

declare advance_rank.simps [simp del]

text \<open>
  The doubles of the loop over the interior quantiles. \<^verbatim>\<open>dh = n / static_cast<double>( NumberOfIntervals )\<close>
  and \<^verbatim>\<open>np = k * dh\<close>: the integers are converted to doubles, and the quotient and the
  product are rounded. Both are finite wherever they are used (then \<open>NumberOfIntervals\<close>
  is at least 2), so they are modelled by reals; \<open>rnd\<close> is the rounding of the machine.
\<close>

definition dh_double :: "(real \<Rightarrow> real) \<Rightarrow> int \<Rightarrow> int \<Rightarrow> real" where
  "dh_double rnd n N = fl rnd (fl rnd (real_of_int n) / fl rnd (real_of_int N))"

definition np_double :: "(real \<Rightarrow> real) \<Rightarrow> int \<Rightarrow> real \<Rightarrow> real" where
  "np_double rnd k dh = fl rnd (fl rnd (real_of_int k) * dh)"

text \<open>The first quantile index of an interior quantile, from \<open>np\<close>.\<close>

definition first_quantile_index :: "QuantileDefinitionType \<Rightarrow> real \<Rightarrow> int" where
  "first_quantile_index qd np =
     (if qd = InverseCDFAveragedSteps then c_round np else \<lceil>np\<rceil>)"

text \<open>The second quantile index, \<^verbatim>\<open>floor( np + 1. )\<close>.\<close>

definition second_quantile_index :: "(real \<Rightarrow> real) \<Rightarrow> real \<Rightarrow> int" where
  "second_quantile_index rnd np = \<lfloor>fl rnd (np + 1)\<rfloor>"

text \<open>
  The body of the loop over the interior quantiles \<open>0 < k < NumberOfIntervals\<close>, run
  over the list of the remaining \<open>k\<close>; \<open>rank\<close> is the cursor, which is never reset. The
  result is the list of pairs of ranks pushed on \<open>quantileIndices\<close>, or the error that
  made \<open>Derive\<close> return.
\<close>

fun interior_quantiles ::
  "QuantileDefinitionType \<Rightarrow> (real \<Rightarrow> real) \<Rightarrow> (int \<Rightarrow> int) \<Rightarrow> int \<Rightarrow> real \<Rightarrow> int list \<Rightarrow> int
     \<Rightarrow> derive_error + (int \<times> int) list" where
  "interior_quantiles qd rnd cdf nRowHist dh [] rank = Inr []"
| "interior_quantiles qd rnd cdf nRowHist dh (k # ks) rank =
     (let np = np_double rnd k dh;
          qIdx1 = first_quantile_index qd np
      in case advance_rank cdf nRowHist qIdx1 rank of
           Inl e \<Rightarrow> Inl e
         | Inr rank1 \<Rightarrow>
             (case (if qd = InverseCDFAveragedSteps
                    then (let qIdx2 = second_quantile_index rnd np
                          in if qIdx1 \<noteq> qIdx2 then advance_rank cdf nRowHist qIdx2 rank1
                             else Inr rank1)
                    else Inr rank1) of
                Inl e \<Rightarrow> Inl e
              | Inr rank2 \<Rightarrow>
                  (case interior_quantiles qd rnd cdf nRowHist dh ks rank2 of
                     Inl e \<Rightarrow> Inl e
                   | Inr pairs \<Rightarrow> Inr ((rank1, rank2) # pairs))))"

text \<open>
  All of \<open>quantileIndices\<close>: the pair \<open>(1, 1)\<close>, the interior pairs for \<open>k = 1, ..., N - 1\<close>,
  and the pair of the last row.
\<close>

definition quantile_indices ::
  "vtkOrderStatistics \<Rightarrow> outside \<Rightarrow> int list \<Rightarrow> derive_error + (int \<times> int) list" where
  "quantile_indices self mem cards =
     (let nRowHist = int (length cards);
          n = sum_list (tl cards);
          dh = dh_double (rounding mem) n (NumberOfIntervals self)
      in case interior_quantiles (QuantileDefinition self) (rounding mem)
                (cdf_at (cdf_outside mem) cards) nRowHist dh
                [1..NumberOfIntervals self - 1] 1 of
           Inl e \<Rightarrow> Inl e
         | Inr pairs \<Rightarrow> Inr ((1, 1) # pairs @ [(nRowHist - 1, nRowHist - 1)]))"

subsection \<open>Values of the quantiles\<close>

text \<open>
  The value of a quantile from the values at its two ranks:
  \<^verbatim>\<open>.5 * ( dvals->GetTuple1( first ) + dvals->GetTuple1( second ) )\<close> under
  \<open>InverseCDFAveragedSteps\<close>, in doubles. The sum of two finite values may round to an
  infinity, and the sum of the two infinities is NaN.
\<close>

definition averaged_step :: "(real \<Rightarrow> real) \<Rightarrow> double \<Rightarrow> double \<Rightarrow> double" where
  "averaged_step rnd a b = dmul rnd (Finite (1 / 2)) (dadd rnd a b)"

text \<open>
  The quantile column of one variable, of the class of the histogram's \<open>Value\<close> column;
  \<open>None\<close> is the warning for an unsupported class, after which no column is added. A
  numeric column other than of doubles is read through a conversion to double and
  written through a cast (its values are finite doubles, modelled by reals). The column
  has \<open>NumberOfIntervals + 1\<close> entries and one is written per pair of ranks: more pairs
  than entries write outside the column.
\<close>

definition quantile_column ::
  "vtkOrderStatistics \<Rightarrow> outside \<Rightarrow> vtkAbstractArray \<Rightarrow> (int \<times> int) list
     \<Rightarrow> derive_error + vtkAbstractArray option" where
  "quantile_column self mem vals quantileIndices =
     (case vals of
        vtkOtherArray m \<Rightarrow> Inr None
      | _ \<Rightarrow>
        if int (length quantileIndices) > NumberOfIntervals self + 1 then Inl UndefinedBehaviour
        else
          (case vals of
             vtkDoubleArray dvals \<Rightarrow>
               Inr (Some (vtkDoubleArray
                 (if QuantileDefinition self = InverseCDFAveragedSteps
                  then map (\<lambda>(first, second).
                              averaged_step (rounding mem)
                                (read_at (double_outside mem) dvals first)
                                (read_at (double_outside mem) dvals second)) quantileIndices
                  else map (\<lambda>(first, second).
                              read_at (double_outside mem) dvals first) quantileIndices)))
           | vtkIdTypeArray ivals \<Rightarrow>
               Inr (Some (vtkIdTypeArray
                 (if QuantileDefinition self = InverseCDFAveragedSteps
                  then map (\<lambda>(first, second).
                              c_trunc (fl (rounding mem) (1 / 2 *
                                fl (rounding mem)
                                  (fl (rounding mem)
                                     (real_of_int (read_at (cdf_outside mem) ivals first))
                                   + fl (rounding mem)
                                       (real_of_int (read_at (cdf_outside mem) ivals second))))))
                         quantileIndices
                  else map (\<lambda>(first, second).
                              c_trunc (fl (rounding mem)
                                (real_of_int (read_at (cdf_outside mem) ivals first))))
                         quantileIndices)))
           | vtkStringArray svals \<Rightarrow>
               Inr (Some (vtkStringArray
                 (map (\<lambda>(first, second). read_at (string_outside mem) svals first)
                    quantileIndices)))
           | vtkVariantArray vvals \<Rightarrow>
               Inr (Some (vtkVariantArray
                 (map (\<lambda>(first, second). read_at (variant_outside mem) vvals first)
                    quantileIndices)))
           | vtkOtherArray m \<Rightarrow> Inr None))"

subsection \<open>One histogram table\<close>

text \<open>
  The columns written back into the histogram table: the cardinality \<open>n\<close> in row 0 of
  \<open>Cardinality\<close>, and the column \<open>P\<close> (found or created) with \<open>-1\<close> in row 0 and
  \<open>inv_n * c\<close> in the other rows, where \<open>inv_n = 1. / n\<close> (an infinity for \<open>n = 0\<close>).
\<close>

definition probabilities :: "outside \<Rightarrow> int list \<Rightarrow> double list" where
  "probabilities mem cards =
     (let n = sum_list (tl cards);
          inv_n = (if n = 0 then PlusInfinity
                   else to_double (rounding mem) (1 / fl (rounding mem) (real_of_int n)))
      in Finite (- 1) # map (\<lambda>c. dmul (rounding mem) inv_n (double_of_int (rounding mem) c))
                          (tl cards))"

definition store_derived :: "outside \<Rightarrow> vtkTable \<Rightarrow> int list \<Rightarrow> vtkTable" where
  "store_derived mem histogramTab cards =
     (let tab1 = SetColumn histogramTab ''Cardinality''
                   (vtkIdTypeArray (cards[0 := sum_list (tl cards)]))
      in case GetColumnByName tab1 ''P'' of
           None \<Rightarrow> AddColumn tab1 ''P'' (vtkDoubleArray (probabilities mem cards))
         | Some abstrCol \<Rightarrow> SetColumn tab1 ''P'' (vtkDoubleArray (probabilities mem cards)))"

text \<open>
  The body of the loop over the blocks, for a block that is a table: the table as
  \<open>Derive\<close> leaves it, and either the error that made \<open>Derive\<close> return or the quantile
  column to add, if any. A table without a \<open>Value\<close> column, without a \<open>Cardinality\<close>
  column of \<open>vtkIdType\<close>, without its cardinality row, or with a column \<open>P\<close> that is not
  of doubles makes the source call a method of a null pointer or write outside an array;
  neither phase builds such a table, and the model gives it the result
  \<open>UndefinedBehaviour\<close>.
\<close>

definition derive_table ::
  "vtkOrderStatistics \<Rightarrow> outside \<Rightarrow> vtkTable
     \<Rightarrow> vtkTable \<times> (derive_error + vtkAbstractArray option)" where
  "derive_table self mem histogramTab =
     (case (GetColumnByName histogramTab ''Value'', GetColumnByName histogramTab ''Cardinality'') of
        (Some vals, Some (vtkIdTypeArray cards)) \<Rightarrow>
          if cards = [] then (histogramTab, Inl UndefinedBehaviour)
          else if (case GetColumnByName histogramTab ''P'' of
                     None \<Rightarrow> False | Some (vtkDoubleArray ps) \<Rightarrow> False | Some other \<Rightarrow> True)
          then (histogramTab, Inl UndefinedBehaviour)
          else
            (let tab' = store_derived mem histogramTab cards
             in case quantile_indices self mem cards of
                  Inl e \<Rightarrow> (tab', Inl e)
                | Inr quantileIndices \<Rightarrow>
                    (tab', quantile_column self mem vals quantileIndices))
      | _ \<Rightarrow> (histogramTab, Inl UndefinedBehaviour))"

subsection \<open>All blocks\<close>

text \<open>
  The loop over the blocks of \<open>inMeta\<close>. A block that is no table is skipped. An error
  returns from \<open>Derive\<close> at once: the blocks after it are left as they were. The result
  is the blocks as left, and the columns added to the quantile table (named after the
  blocks) or the error.
\<close>

fun derive_blocks ::
  "vtkOrderStatistics \<Rightarrow> outside \<Rightarrow> vtkMultiBlockDataSet
     \<Rightarrow> vtkMultiBlockDataSet \<times> (derive_error + vtkTable)" where
  "derive_blocks self mem [] = ([], Inr [])"
| "derive_blocks self mem ((varName, block) # rest) =
     (case SafeDownCast_vtkTable block of
        None \<Rightarrow>
          (case derive_blocks self mem rest of
             (rest', r) \<Rightarrow> ((varName, block) # rest', r))
      | Some histogramTab \<Rightarrow>
          (case derive_table self mem histogramTab of
             (tab', Inl e) \<Rightarrow> ((varName, Some (Table tab')) # rest, Inl e)
           | (tab', Inr quantCol) \<Rightarrow>
               (case derive_blocks self mem rest of
                  (rest', Inl e) \<Rightarrow> ((varName, Some (Table tab')) # rest', Inl e)
                | (rest', Inr cols) \<Rightarrow>
                    ((varName, Some (Table tab')) # rest',
                     Inr (case quantCol of None \<Rightarrow> cols | Some c \<Rightarrow> (varName, c) # cols)))))"

text \<open>
  \<open>Derive\<close>. Without blocks it returns at once. Otherwise the label column is built
  first, the blocks are processed, and the table named \<open>Quantiles\<close> (the label column
  \<open>Quantile\<close> and one column per variable) is appended as a new last block, unless an
  error returned before.
\<close>

datatype derive_result =
    Derived vtkMultiBlockDataSet
  | Aborted derive_error vtkMultiBlockDataSet

definition Derive ::
  "(vtkVariant \<Rightarrow> string) \<Rightarrow> vtkOrderStatistics \<Rightarrow> outside \<Rightarrow> vtkMultiBlockDataSet
     \<Rightarrow> derive_result" where
  "Derive ToString self mem inMeta =
     (if length inMeta < 1 then Derived inMeta
      else
        case quantile_labels ToString mem (NumberOfIntervals self) of
          None \<Rightarrow> Aborted UndefinedBehaviour inMeta
        | Some labels \<Rightarrow>
            (case derive_blocks self mem inMeta of
               (meta', Inl e) \<Rightarrow> Aborted e meta'
             | (meta', Inr cols) \<Rightarrow>
                 Derived (meta' @
                   [(''Quantiles'', Some (Table ((''Quantile'', vtkStringArray labels) # cols)))])))"

subsection \<open>Ranks that never go back\<close>

text \<open>
  A statement about lists of pairs of ranks, used for the proofs only: every pair is
  inside \<open>[lo, hi]\<close>, is ordered, and starts no earlier than the pair before it ends.
\<close>

fun rank_chain :: "int \<Rightarrow> int \<Rightarrow> (int \<times> int) list \<Rightarrow> bool" where
  "rank_chain lo hi [] = True"
| "rank_chain lo hi ((a, b) # ps) = (lo \<le> a \<and> a \<le> b \<and> b \<le> hi \<and> rank_chain b hi ps)"

section \<open>The test phase\<close>

subsection \<open>The empirical CDF\<close>

text \<open>
  \<open>Test\<close> keeps the empirical distribution in a \<^verbatim>\<open>std::map<vtkStdString,double>\<close>: the keys
  are the texts of the observations (\<open>ToString\<close> of each cell), ordered as strings, that
  is lexicographically by character code. The map is modelled by the list of its entries
  in ascending order of the keys. The probabilities and distances of the test phase are
  finite and are modelled by reals, their sums and products taken without rounding; they
  are stored as finite doubles.
\<close>

text \<open>\<^verbatim>\<open>cdfEmpirical[key] += inv_card\<close>: a missing key is created with the value 0 first.\<close>

fun cdf_accumulate :: "'k::linorder \<Rightarrow> real \<Rightarrow> ('k \<times> real) list \<Rightarrow> ('k \<times> real) list" where
  "cdf_accumulate key inv_card [] = [(key, 0 + inv_card)]"
| "cdf_accumulate key inv_card ((k, v) # m) =
     (if key < k then (key, 0 + inv_card) # (k, v) # m
      else if key = k then (k, v + inv_card) # m
      else (k, v) # cdf_accumulate key inv_card m)"

text \<open>The integration loop: every entry becomes the running sum; the last sum is returned too.\<close>

fun cdf_integrate :: "real \<Rightarrow> ('k \<times> real) list \<Rightarrow> ('k \<times> real) list \<times> real" where
  "cdf_integrate running [] = ([], running)"
| "cdf_integrate running ((k, v) # m) =
     (case cdf_integrate (running + v) m of (m', last_sum) \<Rightarrow> ((k, running + v) # m', last_sum))"

text \<open>The cells of a column as variants (\<open>GetValueByName\<close> for each row).\<close>

fun cells :: "vtkAbstractArray \<Rightarrow> vtkVariant list" where
  "cells (vtkDoubleArray xs) = map VariantDouble xs"
| "cells (vtkIdTypeArray xs) = map VariantInt xs"
| "cells (vtkStringArray xs) = map VariantString xs"
| "cells (vtkVariantArray xs) = xs"
| "cells (vtkOtherArray n) = replicate n VariantOther"

text \<open>
  The empirical CDF of a column of \<open>nRowData\<close> observations and its last sum. Without
  rows \<open>inv_card\<close> is \<open>1. / 0\<close>, and is never added.
\<close>

definition empirical_cdf ::
  "(vtkVariant \<Rightarrow> string) \<Rightarrow> vtkAbstractArray \<Rightarrow> nat \<Rightarrow> (string \<times> real) list \<times> real" where
  "empirical_cdf ToString col nRowData =
     (let inv_card = (if nRowData = 0 then 0 else 1 / real nRowData)
      in cdf_integrate 0
           (foldl (\<lambda>m v. cdf_accumulate (ToString v) inv_card m) [] (take nRowData (cells col))))"

text \<open>
  \<^verbatim>\<open>insert( pair( quantile, -1 ) )\<close> followed by the repair of a new entry: it takes the
  value of its predecessor, or 0 when it has none. An entry that exists is left alone.
  \<open>pred\<close> is the value of the predecessor passed so far.
\<close>

fun cdf_insert :: "'k::linorder \<Rightarrow> real \<Rightarrow> ('k \<times> real) list \<Rightarrow> ('k \<times> real) list" where
  "cdf_insert key pred [] = [(key, pred)]"
| "cdf_insert key pred ((k, v) # m) =
     (if key < k then (key, pred) # (k, v) # m
      else if key = k then (k, v) # m
      else (k, v) # cdf_insert key v m)"

subsection \<open>The distance between the empirical and the model CDF\<close>

text \<open>The loop \<^verbatim>\<open>while ( currentQ < nQuant && cit->first >= quantiles[currentQ] ) ++ currentQ;\<close>\<close>

function advance_currentQ :: "'k::linorder list \<Rightarrow> 'k \<Rightarrow> nat \<Rightarrow> nat" where
  "advance_currentQ quantiles x currentQ =
     (if currentQ < length quantiles \<and> x \<ge> quantiles ! currentQ
      then advance_currentQ quantiles x (Suc currentQ)
      else currentQ)"
  by pat_completeness auto
termination
  by (relation "measure (\<lambda>(quantiles, x, currentQ). length quantiles - currentQ)") auto

declare advance_currentQ.simps [simp del]

text \<open>
  The loop over the entries of the merged CDF, from a state \<open>(currentQ, mcdf, Dmn)\<close>;
  \<open>q0\<close> is what the source reads as \<^verbatim>\<open>quantiles[0]\<close>.
\<close>

fun cdf_walk ::
  "'k::linorder \<Rightarrow> 'k list \<Rightarrow> real \<Rightarrow> ('k \<times> real) list \<Rightarrow> nat \<times> real \<times> real
     \<Rightarrow> nat \<times> real \<times> real" where
  "cdf_walk q0 quantiles inv_nq [] state = state"
| "cdf_walk q0 quantiles inv_nq ((x, ecdf) # m) (currentQ, mcdf, Dmn) =
     (let currentQ' = (if x \<ge> q0 then advance_currentQ quantiles x currentQ else currentQ);
          mcdf' = (if x \<ge> q0 then real currentQ' * inv_nq else mcdf);
          d = \<bar>ecdf - mcdf'\<bar>
      in cdf_walk q0 quantiles inv_nq m (currentQ', mcdf', if d > Dmn then d else Dmn))"

text \<open>
  The state after the loop over \<open>cdf\<close>, started as \<open>Test\<close> starts it, with
  \<open>inv_nq = 1. / nQuant\<close> where \<open>nQuant\<close> is the number of rows of the quantile table.
\<close>

definition cdf_distance ::
  "(int \<Rightarrow> 'k::linorder) \<Rightarrow> 'k list \<Rightarrow> nat \<Rightarrow> ('k \<times> real) list \<Rightarrow> nat \<times> real \<times> real" where
  "cdf_distance beyond quantiles nQuant cdf =
     cdf_walk (read_at beyond quantiles 0) quantiles (1 / real nQuant) cdf (0, 0, 0)"

subsection \<open>One request, and all of them\<close>

text \<open>
  The body of the loop over the requests, once the data column and the quantile column
  of the variable are found: \<open>None\<close> is the warning for an empirical CDF that does not end
  at 1, after which the variable is skipped; otherwise the maximum distance and the
  Kolmogorov-Smirnov statistic. With a quantile table without rows the array
  \<open>quantiles\<close> has no entry, and the walk compares the first key with an object that
  does not exist: the model stops there.
\<close>

datatype test_error = QuantileTableWithoutRows

definition test_column ::
  "(vtkVariant \<Rightarrow> string) \<Rightarrow> outside \<Rightarrow> vtkAbstractArray \<Rightarrow> nat \<Rightarrow> vtkAbstractArray \<Rightarrow> nat
     \<Rightarrow> test_error + (real \<times> real) option" where
  "test_column ToString mem dataCol nRowData quantCol nQuant =
     (case empirical_cdf ToString dataCol nRowData of
        (cdfEmpirical, last_sum) \<Rightarrow>
          if \<bar>last_sum - 1\<bar> > 1 / 10 ^ 6 then Inr None
          else if nQuant = 0 then Inl QuantileTableWithoutRows
          else
            (let quantiles = map ToString (take nQuant (cells quantCol));
                 merged = foldl (\<lambda>m q. cdf_insert q 0 m) cdfEmpirical quantiles
             in case cdf_distance (string_outside mem) quantiles nQuant merged of
                  (currentQ, mcdf, Dmn) \<Rightarrow> Inr (Some (Dmn, sqrt (real nRowData) * Dmn))))"

text \<open>
  The rows of the three output columns. A request is given by its first column name.
\<close>

fun test_requests ::
  "(vtkVariant \<Rightarrow> string) \<Rightarrow> outside \<Rightarrow> vtkTable \<Rightarrow> vtkTable \<Rightarrow> string list
     \<Rightarrow> test_error + (string \<times> real \<times> real) list" where
  "test_requests ToString mem inData quantileTab [] = Inr []"
| "test_requests ToString mem inData quantileTab (varName # requests) =
     (case GetColumnByName inData varName of
        None \<Rightarrow> test_requests ToString mem inData quantileTab requests
      | Some dataCol \<Rightarrow>
          (case GetColumnByName quantileTab varName of
             None \<Rightarrow> test_requests ToString mem inData quantileTab requests
           | Some quantCol \<Rightarrow>
               (case test_column ToString mem dataCol (GetNumberOfRows inData)
                       quantCol (GetNumberOfRows quantileTab) of
                  Inl e \<Rightarrow> Inl e
                | Inr None \<Rightarrow> test_requests ToString mem inData quantileTab requests
                | Inr (Some (Dmn, stat)) \<Rightarrow>
                    (case test_requests ToString mem inData quantileTab requests of
                       Inl e \<Rightarrow> Inl e
                     | Inr rows \<Rightarrow> Inr ((varName, Dmn, stat) # rows)))))"

text \<open>
  \<open>Test\<close>: the output table \<open>outMeta\<close> as the call leaves it. The model is used only when
  the last block of \<open>inMeta\<close> is a table whose name is \<open>Quantiles\<close>; \<open>inMeta\<close> and
  \<open>outMeta\<close> may be null pointers (\<open>None\<close>).
\<close>

definition Test ::
  "(vtkVariant \<Rightarrow> string) \<Rightarrow> outside \<Rightarrow> string list \<Rightarrow> vtkTable
     \<Rightarrow> vtkMultiBlockDataSet option \<Rightarrow> vtkTable option \<Rightarrow> test_error + vtkTable option" where
  "Test ToString mem requests inData inMeta outMeta =
     (case inMeta of
        None \<Rightarrow> Inr outMeta
      | Some blocks \<Rightarrow>
          if length blocks < 1 then Inr outMeta
          else
            (case SafeDownCast_vtkTable (snd (last blocks)) of
               None \<Rightarrow> Inr outMeta
             | Some quantileTab \<Rightarrow>
                 if fst (last blocks) \<noteq> ''Quantiles'' then Inr outMeta
                 else
                   (case outMeta of
                      None \<Rightarrow> Inr None
                    | Some out \<Rightarrow>
                        (case test_requests ToString mem inData quantileTab requests of
                           Inl e \<Rightarrow> Inl e
                         | Inr rows \<Rightarrow>
                             Inr (Some (AddColumn (AddColumn (AddColumn out
                               ''Variable'' (vtkStringArray (map fst rows)))
                               ''Maximum Distance'' (vtkDoubleArray (map (Finite \<circ> fst \<circ> snd) rows)))
                               ''Kolmogorov-Smirnov'' (vtkDoubleArray (map (Finite \<circ> snd \<circ> snd) rows))))))))"

section \<open>The choice of the assess functor\<close>

datatype AssessFunctor =
    DataArrayQuantizer vtkAbstractArray vtkAbstractArray
  | StringArrayQuantizer vtkAbstractArray vtkAbstractArray
  | VariantArrayQuantizer vtkAbstractArray vtkAbstractArray

text \<open>\<^verbatim>\<open>IsA( "vtkDataArray" )\<close>, \<^verbatim>\<open>IsA( "vtkStringArray" )\<close> and \<^verbatim>\<open>IsA( "vtkVariantArray" )\<close>.\<close>

fun IsA_vtkDataArray :: "vtkAbstractArray \<Rightarrow> bool" where
  "IsA_vtkDataArray (vtkDoubleArray xs) = True"
| "IsA_vtkDataArray (vtkIdTypeArray xs) = True"
| "IsA_vtkDataArray other = False"

fun IsA_vtkStringArray :: "vtkAbstractArray \<Rightarrow> bool" where
  "IsA_vtkStringArray (vtkStringArray xs) = True"
| "IsA_vtkStringArray other = False"

fun IsA_vtkVariantArray :: "vtkAbstractArray \<Rightarrow> bool" where
  "IsA_vtkVariantArray (vtkVariantArray xs) = True"
| "IsA_vtkVariantArray other = False"

text \<open>
  \<open>SelectAssessFunctor\<close>: the functor left in \<open>dfunc\<close>, \<open>None\<close> for the null pointer.
  \<open>inMeta\<close> is the result of the cast of the data object to a multi-block data set.
\<close>

definition SelectAssessFunctor ::
  "outside \<Rightarrow> vtkTable \<Rightarrow> vtkMultiBlockDataSet option \<Rightarrow> string list \<Rightarrow> AssessFunctor option" where
  "SelectAssessFunctor mem outData inMeta rowNames =
     (case inMeta of
        None \<Rightarrow> None
      | Some blocks \<Rightarrow>
          if length blocks < 1 then None
          else
            (case SafeDownCast_vtkTable (snd (last blocks)) of
               None \<Rightarrow> None
             | Some quantileTab \<Rightarrow>
                 if fst (last blocks) \<noteq> ''Quantiles'' then None
                 else
                   (let varName = read_at (string_outside mem) rowNames 0
                    in case GetColumnByName outData varName of
                         None \<Rightarrow> None
                       | Some vals \<Rightarrow>
                           (case GetColumnByName quantileTab varName of
                              None \<Rightarrow> None
                            | Some quantiles \<Rightarrow>
                                if IsA_vtkDataArray vals \<and> IsA_vtkDataArray quantiles
                                then Some (DataArrayQuantizer vals quantiles)
                                else if IsA_vtkStringArray vals \<and> IsA_vtkStringArray quantiles
                                then Some (StringArrayQuantizer vals quantiles)
                                else if IsA_vtkVariantArray vals \<and> IsA_vtkVariantArray quantiles
                                then Some (VariantArrayQuantizer vals quantiles)
                                else None))))"

text \<open>
  The condition of the claim about both operations, in the words of the specification:
  the model has a last block, that block is a table, and its name is \<open>Quantiles\<close>.
\<close>

fun last_block_is_Quantiles_table :: "vtkMultiBlockDataSet option \<Rightarrow> bool" where
  "last_block_is_Quantiles_table None = False"
| "last_block_is_Quantiles_table (Some blocks) =
     (blocks \<noteq> [] \<and>
      (case snd (last blocks) of Some (Table quantileTab) \<Rightarrow> True | _ \<Rightarrow> False) \<and>
      fst (last blocks) = ''Quantiles'')"

section \<open>The quantizer of the assess phase\<close>

text \<open>
  The three assess functors (\<open>DataArrayQuantizer\<close>, \<open>StringArrayQuantizer\<close>,
  \<open>VariantArrayQuantizer\<close>) run the same code over a column of doubles, strings or
  variants; the model is written once over any linearly ordered value type (a double
  that is NaN is outside the model). The scan is the loop
  \<^verbatim>\<open>q = 1; while ( q < n && dval > Quantiles[q] ) ++ q;\<close>
  with \<open>n\<close> the number of stored breakpoints.
\<close>

function quantizer_scan :: "'a::linorder list \<Rightarrow> 'a \<Rightarrow> nat \<Rightarrow> nat" where
  "quantizer_scan quantiles dval q =
     (if q < length quantiles \<and> dval > quantiles ! q
      then quantizer_scan quantiles dval (Suc q)
      else q)"
  by pat_completeness auto
termination
  by (relation "measure (\<lambda>(quantiles, dval, q). length quantiles - q)") auto

declare quantizer_scan.simps [simp del]

text \<open>
  \<open>operator()\<close>: the value 0 when the observation is below the first breakpoint,
  otherwise the index where the scan stops. Reading breakpoint 0 of an empty quantile
  column is outside the array; the model answers \<open>None\<close> there.
\<close>

definition Quantizer :: "'a::linorder list \<Rightarrow> 'a \<Rightarrow> nat option" where
  "Quantizer quantiles dval =
     (case quantiles of
        [] \<Rightarrow> None
      | q0 # _ \<Rightarrow> if dval < q0 then Some 0 else Some (quantizer_scan quantiles dval 1))"

text \<open>
  The reading of the specification: the bucket is the smallest index whose breakpoint is
  at least the observation (the number of breakpoints strictly below it, for ascending
  breakpoints).
\<close>

definition spec_smallest_index :: "'a::linorder list \<Rightarrow> 'a \<Rightarrow> nat" where
  "spec_smallest_index quantiles dval = length (takeWhile (\<lambda>b. b < dval) quantiles)"

section \<open>An instance of the text of a variant\<close>

text \<open>
  The examples below need a value for the parameter \<open>ToString\<close>. This one writes
  integers in decimal notation and strings as they are, which is all the examples use.
\<close>

fun decimal :: "nat \<Rightarrow> string" where
  "decimal n = (if n < 10 then [''0123456789'' ! n]
                else decimal (n div 10) @ [''0123456789'' ! (n mod 10)])"

declare decimal.simps [simp del]

fun decimal_ToString :: "vtkVariant \<Rightarrow> string" where
  "decimal_ToString (VariantInt i) =
     (if i < 0 then CHR ''-'' # decimal (nat (- i)) else decimal (nat i))"
| "decimal_ToString (VariantString s) = s"
| "decimal_ToString (VariantDouble x) = ''?''"
| "decimal_ToString VariantOther = ''?''"

section \<open>Facts about doubles\<close>

subsection \<open>Results that are not rounded\<close>

lemma is_double_dyadic:
  assumes "\<bar>m\<bar> < 2 ^ 53" and "j \<le> 1074"
  shows "is_double (real_of_int m / 2 ^ j)"
proof -
  have "real_of_int m / 2 ^ j = real_of_int m * 2 powi (- int j)"
    by (simp add: power_int_minus field_simps)
  moreover have "- 1074 \<le> - int j" using assms(2) by simp
  ultimately show ?thesis unfolding is_double_def using assms(1) by blast
qed

lemma is_double_int: "\<bar>i\<bar> < 2 ^ 53 \<Longrightarrow> is_double (real_of_int i)"
  using is_double_dyadic [of i 0] by simp

lemma fl_exact: "is_double x \<Longrightarrow> fl rnd x = x"
  by (simp add: fl_def)

lemma fl_int: "\<bar>i\<bar> < 2 ^ 53 \<Longrightarrow> fl rnd (real_of_int i) = real_of_int i"
  by (simp add: fl_exact is_double_int)

lemma fl_zero: "fl rnd 0 = 0"
  using fl_int [of 0 rnd] by simp

lemma fl_one: "fl rnd 1 = 1"
  using fl_int [of 1 rnd] by simp

lemma fl_numeral: "(numeral w :: int) < 2 ^ 53 \<Longrightarrow> fl rnd (numeral w) = numeral w"
  using fl_int [of "numeral w" rnd] by simp

lemma fl_neg_numeral: "(numeral w :: int) < 2 ^ 53 \<Longrightarrow> fl rnd (- numeral w) = - numeral w"
  using fl_int [of "- numeral w" rnd] by simp

lemma fl_quarter: "fl rnd (1 / 4) = 1 / 4"
  using is_double_dyadic [of 1 2] by (simp add: fl_exact)

lemma fl_half: "fl rnd (1 / 2) = 1 / 2"
  using is_double_dyadic [of 1 1] by (simp add: fl_exact)

lemma fl_eighth: "fl rnd (1 / 8) = 1 / 8"
  using is_double_dyadic [of 1 3] by (simp add: fl_exact)

lemma fl_numeral_div_2:
  "(numeral w :: int) < 2 ^ 53 \<Longrightarrow> fl rnd (numeral w / 2) = numeral w / 2"
  using is_double_dyadic [of "numeral w" 1] by (simp add: fl_exact)

lemma fl_numeral_div_4:
  "(numeral w :: int) < 2 ^ 53 \<Longrightarrow> fl rnd (numeral w / 4) = numeral w / 4"
  using is_double_dyadic [of "numeral w" 2] by (simp add: fl_exact)

lemma fl_numeral_div_8:
  "(numeral w :: int) < 2 ^ 53 \<Longrightarrow> fl rnd (numeral w / 8) = numeral w / 8"
  using is_double_dyadic [of "numeral w" 3] by (simp add: fl_exact)

lemma to_double_exact:
  "is_double x \<Longrightarrow> \<bar>x\<bar> < 2 ^ 1024 \<Longrightarrow> to_double rnd x = Finite x"
  by (auto simp add: to_double_def fl_exact Let_def abs_if split: if_splits)

lemma double_of_int_exact:
  assumes "\<bar>i\<bar> < 2 ^ 53"
  shows "double_of_int rnd i = Finite (real_of_int i)"
proof -
  from assms have "real_of_int \<bar>i\<bar> < 2 ^ 53" by (simp flip: of_int_less_iff)
  moreover have "(2 ^ 53 :: real) \<le> 2 ^ 1024" by (intro power_increasing) simp_all
  ultimately have "\<bar>real_of_int i\<bar> < 2 ^ 1024" by simp
  with assms show ?thesis
    unfolding double_of_int_def by (intro to_double_exact is_double_int)
qed

subsection \<open>The order of doubles\<close>

lemma double_le_refl: "a \<noteq> NaN \<Longrightarrow> double_le a a"
  by (cases a) simp_all

lemma double_le_not_NaN: "double_le a b \<Longrightarrow> a \<noteq> NaN \<and> b \<noteq> NaN"
  by (cases a; cases b) simp_all

lemma double_le_trans: "double_le a b \<Longrightarrow> double_le b c \<Longrightarrow> double_le a c"
  by (cases a; cases b; cases c) simp_all

lemma double_less_imp_le: "double_less a b \<Longrightarrow> double_le a b"
  by (cases a; cases b) simp_all

lemma double_less_not_NaN: "double_less a b \<Longrightarrow> a \<noteq> NaN \<and> b \<noteq> NaN"
  by (cases a; cases b) simp_all

lemma double_less_trans: "double_less a b \<Longrightarrow> double_less b c \<Longrightarrow> double_less a c"
  by (cases a; cases b; cases c) simp_all

lemma double_less_irrefl: "\<not> double_less a a"
  by (cases a) simp_all

lemma double_less_trichotomy:
  "a \<noteq> NaN \<Longrightarrow> b \<noteq> NaN \<Longrightarrow> \<not> double_less a b \<Longrightarrow> \<not> double_less b a \<Longrightarrow> a = b"
  by (cases a; cases b) simp_all

lemma to_double_not_NaN: "to_double rnd x \<noteq> NaN"
  by (simp add: to_double_def Let_def)

lemma to_double_mono:
  assumes mono: "\<And>x y. x \<le> y \<Longrightarrow> fl rnd x \<le> fl rnd y" and "x \<le> y"
  shows "double_le (to_double rnd x) (to_double rnd y)"
proof -
  from mono [OF assms(2)] have "fl rnd x \<le> fl rnd y" .
  moreover have "- (2 ^ 1024) < (2 ^ 1024 :: real)" by simp
  ultimately show ?thesis
    unfolding to_double_def Let_def by (auto simp del: power_numeral)
qed

lemma dadd_not_NaN:
  "a \<noteq> NaN \<Longrightarrow> b \<noteq> NaN \<Longrightarrow> \<not> (MinusInfinity \<in> {a, b} \<and> PlusInfinity \<in> {a, b}) \<Longrightarrow>
     dadd rnd a b \<noteq> NaN"
  by (cases a; cases b) (simp_all add: to_double_not_NaN)

lemma dadd_mono:
  assumes mono: "\<And>x y. x \<le> y \<Longrightarrow> fl rnd x \<le> fl rnd y"
    and "double_le a c" and "double_le b d"
    and "dadd rnd a b \<noteq> NaN" and "dadd rnd c d \<noteq> NaN"
  shows "double_le (dadd rnd a b) (dadd rnd c d)"
proof -
  have fin: "double_le (to_double rnd (x + y)) (to_double rnd (x' + y'))"
    if "x \<le> x'" "y \<le> y'" for x y x' y' :: real
    by (rule to_double_mono [OF mono]) (use that in simp_all)
  have top: "double_le s PlusInfinity" if "s \<noteq> NaN" for s
    using that by (cases s) simp_all
  have bot: "double_le MinusInfinity s" if "s \<noteq> NaN" for s
    using that by (cases s) simp_all
  show ?thesis
    using assms(2-5) fin top [OF to_double_not_NaN] bot [OF to_double_not_NaN]
    by (cases a; cases b; cases c; cases d) simp_all
qed

lemma half_mono:
  assumes mono: "\<And>x y. x \<le> y \<Longrightarrow> fl rnd x \<le> fl rnd y" and "double_le s t"
  shows "double_le (dmul rnd (Finite (1 / 2)) s) (dmul rnd (Finite (1 / 2)) t)"
proof -
  have fin: "double_le (to_double rnd (1 / 2 * x)) (to_double rnd (1 / 2 * y))"
    if "x \<le> y" for x y :: real
    by (rule to_double_mono [OF mono]) (use that in simp_all)
  have top: "double_le u PlusInfinity" if "u \<noteq> NaN" for u
    using that by (cases u) simp_all
  have bot: "double_le MinusInfinity u" if "u \<noteq> NaN" for u
    using that by (cases u) simp_all
  show ?thesis
    using assms(2) fin top [OF to_double_not_NaN] bot [OF to_double_not_NaN]
    by (cases s; cases t) simp_all
qed

lemma averaged_step_mono:
  assumes mono: "\<And>x y. x \<le> y \<Longrightarrow> fl rnd x \<le> fl rnd y"
    and "double_le a c" and "double_le b d"
    and "\<not> (MinusInfinity \<in> {a, b, c, d} \<and> PlusInfinity \<in> {a, b, c, d})"
  shows "double_le (averaged_step rnd a b) (averaged_step rnd c d)"
proof -
  from assms(2,3) have nn: "a \<noteq> NaN" "b \<noteq> NaN" "c \<noteq> NaN" "d \<noteq> NaN"
    by (auto dest: double_le_not_NaN)
  have "dadd rnd a b \<noteq> NaN" using nn assms(4) by (intro dadd_not_NaN) auto
  moreover have "dadd rnd c d \<noteq> NaN" using nn assms(4) by (intro dadd_not_NaN) auto
  ultimately have "double_le (dadd rnd a b) (dadd rnd c d)"
    using assms(2,3) by (intro dadd_mono mono)
  then show ?thesis unfolding averaged_step_def by (intro half_mono mono)
qed

subsection \<open>Rounding with a bounded relative error\<close>

text \<open>
  The two facts about the rounding that the proofs below use where a result is rounded:
  it is monotone, and in the range of the normal doubles its relative error is at most
  \<open>1 / 2 ^ 52\<close> (half of that for rounding to nearest). Every rounding mode of IEEE 754 has
  both properties.
\<close>

lemma rounding_bounds:
  assumes E: "\<And>x. 1 / 2 ^ 1022 \<le> \<bar>x\<bar> \<Longrightarrow> \<bar>fl rnd x - x\<bar> \<le> \<bar>x\<bar> / 2 ^ 52"
    and x: "1 / 2 ^ 40 \<le> x"
  shows "fl rnd x \<le> x * (1 + 1 / 2 ^ 52)" and "x * (1 - 1 / 2 ^ 52) \<le> fl rnd x"
proof -
  have "(1::real) / 2 ^ 1022 \<le> 1 / 2 ^ 40"
    by (intro divide_left_mono power_increasing) simp_all
  with x have ax: "1 / 2 ^ 1022 \<le> \<bar>x\<bar>" by linarith
  have pos: "0 < x" using x by (rule less_le_trans [rotated]) simp
  from E [OF ax] pos have "\<bar>fl rnd x - x\<bar> \<le> x / 2 ^ 52" by simp
  then have "fl rnd x - x \<le> x / 2 ^ 52" "- (x / 2 ^ 52) \<le> fl rnd x - x" by linarith+
  then show "fl rnd x \<le> x * (1 + 1 / 2 ^ 52)" and "x * (1 - 1 / 2 ^ 52) \<le> fl rnd x"
    by (simp_all add: algebra_simps)
qed

lemma rounding_slack: "(1 - 1 / 2 ^ 31) * ((1 + 1 / 2 ^ 52) * (1 + 1 / 2 ^ 52) * (1 + 1 / 2 ^ 52)) \<le> (1 - 1 / 2 ^ 32 :: real)"
  by simp

lemma np_double_bounds:
  assumes E: "\<And>x. 1 / 2 ^ 1022 \<le> \<bar>x\<bar> \<Longrightarrow> \<bar>fl rnd x - x\<bar> \<le> \<bar>x\<bar> / 2 ^ 52"
    and n: "0 < n" and k: "1 \<le> k" "k < N" and N: "N < 2 ^ 31"
  shows "1 / 2 ^ 40 \<le> np_double rnd k (dh_double rnd n N)"
    and "np_double rnd k (dh_double rnd n N) \<le> real_of_int n * (1 - 1 / 2 ^ 32)"
proof -
  let ?u = "1 + 1 / 2 ^ 52 :: real" and ?l = "1 - 1 / 2 ^ 52 :: real"
  have l_half: "1 / 2 \<le> ?l" by simp
  have u_pos: "0 < ?u" by simp
  have Npos: "0 < real_of_int N" using k by simp
  have N31: "real_of_int N \<le> 2 ^ 31" using N by (simp flip: of_int_le_iff add: less_imp_le)
  have fN: "fl rnd (real_of_int N) = real_of_int N"
    using k N by (intro fl_int) simp
  have fk: "fl rnd (real_of_int k) = real_of_int k"
    using k N by (intro fl_int) simp
  have n1: "1 \<le> real_of_int n" using n by simp
  define a where "a = fl rnd (real_of_int n)"
  have "1 / 2 ^ 40 \<le> real_of_int n" using n1 by (rule order_trans [rotated]) simp
  from rounding_bounds [OF E this]
  have a_up: "a \<le> real_of_int n * ?u" and a_lo: "real_of_int n * ?l \<le> a"
    by (simp_all add: a_def)
  have "1 * (1 / 2) \<le> real_of_int n * ?l"
    using n1 l_half by (intro mult_mono) simp_all
  with a_lo have a_half: "1 / 2 \<le> a" by simp
  define q where "q = a / real_of_int N"
  have q_lo: "1 / 2 ^ 32 \<le> q"
  proof -
    have "1 / 2 ^ 32 * real_of_int N \<le> 1 / 2 ^ 32 * 2 ^ 31"
      using N31 by (intro mult_left_mono) simp_all
    also have "\<dots> = 1 / 2" by simp
    finally have "1 / 2 ^ 32 * real_of_int N \<le> a" using a_half by simp
    then show ?thesis using Npos by (simp add: q_def pos_le_divide_eq)
  qed
  have q_up: "q \<le> real_of_int n * ?u / real_of_int N"
    unfolding q_def using Npos by (intro divide_right_mono a_up) simp
  define dh where "dh = fl rnd q"
  have dh_eq: "dh_double rnd n N = dh"
    by (simp add: dh_double_def fN dh_def q_def a_def)
  have "1 / 2 ^ 40 \<le> q" using q_lo by (rule order_trans [rotated]) simp
  from rounding_bounds [OF E this]
  have dh_up: "dh \<le> q * ?u" and dh_lo: "q * ?l \<le> dh" by (simp_all add: dh_def)
  have "1 / 2 ^ 32 * (1 / 2) \<le> q * ?l"
    using q_lo l_half by (intro mult_mono) simp_all
  with dh_lo have dh_33: "1 / 2 ^ 33 \<le> dh" by simp
  define p where "p = real_of_int k * dh"
  have k1: "1 \<le> real_of_int k" using k by simp
  have "1 * (1 / 2 ^ 33) \<le> real_of_int k * dh"
    using k1 dh_33 by (intro mult_mono) simp_all
  then have p_33: "1 / 2 ^ 33 \<le> p" by (simp add: p_def)
  have np_eq: "np_double rnd k (dh_double rnd n N) = fl rnd p"
    by (simp add: np_double_def fk dh_eq p_def)
  have "1 / 2 ^ 40 \<le> p" using p_33 by (rule order_trans [rotated]) simp
  from rounding_bounds [OF E this]
  have np_up: "fl rnd p \<le> p * ?u" and np_lo: "p * ?l \<le> fl rnd p" by simp_all
  have "1 / 2 ^ 33 * (1 / 2) \<le> p * ?l"
    using p_33 l_half by (intro mult_mono) simp_all
  with np_lo have "1 / 2 ^ 34 \<le> fl rnd p" by simp
  then have "1 / 2 ^ 40 \<le> fl rnd p" by (rule order_trans [rotated]) simp
  then show "1 / 2 ^ 40 \<le> np_double rnd k (dh_double rnd n N)" by (simp add: np_eq)
  have kN: "real_of_int k / real_of_int N \<le> 1 - 1 / 2 ^ 31"
  proof -
    have "real_of_int k \<le> real_of_int N - 1" using k by linarith
    then have "real_of_int k / real_of_int N \<le> (real_of_int N - 1) / real_of_int N"
      using Npos by (simp add: divide_right_mono)
    also have "\<dots> = 1 - 1 / real_of_int N" using Npos by (simp add: field_simps)
    also have "\<dots> \<le> 1 - 1 / 2 ^ 31"
    proof -
      have "1 / 2 ^ 31 \<le> 1 / real_of_int N"
        using N31 Npos by (intro divide_left_mono) simp_all
      then show ?thesis by simp
    qed
    finally show ?thesis .
  qed
  have kpos: "0 \<le> real_of_int k" using k by simp
  have "p \<le> real_of_int k * (q * ?u)"
    unfolding p_def using dh_up kpos by (intro mult_left_mono)
  also have "\<dots> \<le> real_of_int k * ((real_of_int n * ?u / real_of_int N) * ?u)"
    using q_up kpos by (intro mult_left_mono mult_right_mono) simp_all
  also have "\<dots> = (real_of_int k / real_of_int N) * (real_of_int n * (?u * ?u))"
    by (simp add: field_simps)
  also have "\<dots> \<le> (1 - 1 / 2 ^ 31) * (real_of_int n * (?u * ?u))"
    using kN n1 by (intro mult_right_mono) simp_all
  finally have p_up: "p \<le> (1 - 1 / 2 ^ 31) * (real_of_int n * (?u * ?u))" .
  have "fl rnd p \<le> p * ?u" by (rule np_up)
  also have "\<dots> \<le> ((1 - 1 / 2 ^ 31) * (real_of_int n * (?u * ?u))) * ?u"
    using p_up by (intro mult_right_mono) simp_all
  also have "\<dots> = real_of_int n * ((1 - 1 / 2 ^ 31) * (?u * ?u * ?u))"
    by (simp add: algebra_simps)
  also have "\<dots> \<le> real_of_int n * (1 - 1 / 2 ^ 32)"
    using n1 rounding_slack by (intro mult_left_mono) simp_all
  finally show "np_double rnd k (dh_double rnd n N) \<le> real_of_int n * (1 - 1 / 2 ^ 32)"
    by (simp add: np_eq)
qed

lemma quantile_index_le_cardinality:
  assumes E: "\<And>x. 1 / 2 ^ 1022 \<le> \<bar>x\<bar> \<Longrightarrow> \<bar>fl rnd x - x\<bar> \<le> \<bar>x\<bar> / 2 ^ 52"
    and n: "0 < n" and k: "1 \<le> k" "k < N" and N: "N < 2 ^ 31"
  shows "first_quantile_index qd (np_double rnd k (dh_double rnd n N)) \<le> n \<and>
         second_quantile_index rnd (np_double rnd k (dh_double rnd n N)) \<le> n"
proof -
  let ?np = "np_double rnd k (dh_double rnd n N)"
  note b = np_double_bounds [OF E n k N]
  have n1: "1 \<le> real_of_int n" using n by simp
  have "(0::real) < 1 / 2 ^ 40" by simp
  with b(1) have pos: "0 < ?np" by linarith
  have "real_of_int n * (1 - 1 / 2 ^ 32) \<le> real_of_int n * 1"
    using n1 by (intro mult_left_mono) simp_all
  with b(2) have le: "?np \<le> real_of_int n" by simp
  have "\<lceil>?np\<rceil> \<le> n" using le by (simp add: ceiling_le_iff)
  moreover have "c_round ?np \<le> n"
    using le pos by (simp add: c_round_def floor_le_iff)
  moreover have "\<lfloor>fl rnd (?np + 1)\<rfloor> \<le> n"
  proof -
    have "1 / 2 ^ 40 \<le> ?np + 1" using pos by simp
    from rounding_bounds(1) [OF E this]
    have "fl rnd (?np + 1) \<le> (?np + 1) * (1 + 1 / 2 ^ 52)" .
    also have "\<dots> \<le> (real_of_int n * (1 - 1 / 2 ^ 32) + 1) * (1 + 1 / 2 ^ 52)"
      using b(2) by (intro mult_right_mono) simp_all
    also have "\<dots> = real_of_int n + 1 - real_of_int n * (1 / 2 ^ 32 - 1 / 2 ^ 52 + 1 / 2 ^ 84)
                      + 1 / 2 ^ 52"
      by (simp add: algebra_simps)
    also have "\<dots> < real_of_int n + 1"
    proof -
      have "1 * (1 / 2 ^ 51) \<le> real_of_int n * (1 / 2 ^ 32 - 1 / 2 ^ 52 + 1 / 2 ^ 84)"
        using n1 by (intro mult_mono) simp_all
      then show ?thesis by simp
    qed
    finally have "fl rnd (?np + 1) < real_of_int n + 1" .
    then show ?thesis by (simp add: floor_le_iff)
  qed
  ultimately show ?thesis
    by (simp add: first_quantile_index_def second_quantile_index_def)
qed

subsection \<open>Rounding to nearest\<close>

lemma binade_bounds:
  assumes "x \<noteq> 0"
  shows "2 powi binade x \<le> \<bar>x\<bar>" and "\<bar>x\<bar> < 2 powi (binade x + 1)"
proof -
  from assms have pos: "0 < \<bar>x\<bar>" by simp
  have "\<lfloor>log 2 \<bar>x\<bar>\<rfloor> = binade x" by (simp add: binade_def)
  with floor_log_eq_powr_iff [OF pos, of 2 "binade x"]
  have "2 powr real_of_int (binade x) \<le> \<bar>x\<bar>"
    and "\<bar>x\<bar> < 2 powr (real_of_int (binade x) + 1)" by simp_all
  moreover have "(2::real) powr real_of_int (binade x) = 2 powi binade x"
    by (intro powr_real_of_int') simp_all
  moreover have "(2::real) powr (real_of_int (binade x) + 1) = 2 powi (binade x + 1)"
    using powr_real_of_int' [of 2 "binade x + 1"] by simp
  ultimately show "2 powi binade x \<le> \<bar>x\<bar>" and "\<bar>x\<bar> < 2 powi (binade x + 1)" by simp_all
qed

lemma binade_eq:
  assumes "2 powi e \<le> \<bar>x\<bar>" and "\<bar>x\<bar> < 2 powi (e + 1)"
  shows "binade x = e"
proof -
  have "(0::real) < 2 powi e" by simp
  with assms(1) have pos: "0 < \<bar>x\<bar>" by linarith
  have a: "(2::real) powr real_of_int e = 2 powi e"
    by (intro powr_real_of_int') simp_all
  have b: "(2::real) powr (real_of_int e + 1) = 2 powi (e + 1)"
    using powr_real_of_int' [of 2 "e + 1"] by simp
  from floor_log_eq_powr_iff [OF pos, of 2 e] assms a b show ?thesis
    by (simp add: binade_def)
qed

lemma binade_mono:
  assumes "x \<noteq> 0" and "\<bar>x\<bar> \<le> \<bar>y\<bar>"
  shows "binade x \<le> binade y"
proof (rule ccontr)
  assume "\<not> binade x \<le> binade y"
  then have "binade y + 1 \<le> binade x" by simp
  then have "(2::real) powi (binade y + 1) \<le> 2 powi binade x"
    by (intro power_int_increasing) simp_all
  moreover from assms have "y \<noteq> 0" by auto
  ultimately show False
    using binade_bounds(1) [OF assms(1)] binade_bounds(2) [OF \<open>y \<noteq> 0\<close>] assms(2) by linarith
qed

lemma round_half_even_of_int: "round_half_even (real_of_int n) = n"
  by (simp add: round_half_even_def)

lemma round_half_even_floor:
  "\<lfloor>q\<rfloor> \<le> round_half_even q" "round_half_even q \<le> \<lfloor>q\<rfloor> + 1"
  by (simp_all add: round_half_even_def Let_def)

lemma round_half_even_error: "\<bar>real_of_int (round_half_even q) - q\<bar> \<le> 1 / 2"
proof -
  define f where "f = \<lfloor>q\<rfloor>"
  have b: "real_of_int f \<le> q" "q < real_of_int f + 1" unfolding f_def by linarith+
  have "round_half_even q =
          (if q - real_of_int f < 1 / 2 then f
           else if 1 / 2 < q - real_of_int f then f + 1
           else if even f then f else f + 1)"
    by (simp add: round_half_even_def Let_def f_def)
  with b show ?thesis by (auto simp add: abs_if)
qed

lemma round_half_even_mono:
  assumes "q \<le> q'"
  shows "round_half_even q \<le> round_half_even q'"
proof (cases "\<lfloor>q\<rfloor> = \<lfloor>q'\<rfloor>")
  case True
  with assms show ?thesis
    by (auto simp add: round_half_even_def Let_def)
next
  case False
  with assms have "\<lfloor>q\<rfloor> < \<lfloor>q'\<rfloor>" using floor_mono [OF assms] by simp
  with round_half_even_floor(2) [of q] round_half_even_floor(1) [of q'] show ?thesis
    by simp
qed

lemma round_half_even_le: "q \<le> real_of_int n \<Longrightarrow> round_half_even q \<le> n"
  using round_half_even_mono [of q "real_of_int n"] by (simp add: round_half_even_of_int)

lemma round_half_even_ge: "real_of_int n \<le> q \<Longrightarrow> n \<le> round_half_even q"
  using round_half_even_mono [of "real_of_int n" q] by (simp add: round_half_even_of_int)

lemma binade_minus: "binade (- x) = binade x"
  by (simp add: binade_def)

lemma round_to_nearest_minus: "round_to_nearest (- x) = - round_to_nearest x"
  by (simp add: round_to_nearest_def binade_minus Let_def sgn_minus)

lemma round_to_nearest_pos:
  assumes "0 < x"
  shows "round_to_nearest x =
           real_of_int (round_half_even (x / 2 powi max (binade x - 52) (- 1074)))
             * 2 powi max (binade x - 52) (- 1074)"
  using assms by (simp add: round_to_nearest_def Let_def)

lemma round_to_nearest_nonneg:
  assumes "0 \<le> x"
  shows "0 \<le> round_to_nearest x"
proof (cases "x = 0")
  case True
  then show ?thesis by (simp add: round_to_nearest_def)
next
  case False
  with assms have pos: "0 < x" by simp
  let ?j = "max (binade x - 52) (- 1074)"
  have "real_of_int 0 \<le> x / 2 powi ?j" using pos by simp
  then have "0 \<le> round_half_even (x / 2 powi ?j)" by (rule round_half_even_ge)
  then show ?thesis by (simp add: round_to_nearest_pos [OF pos])
qed

lemma round_to_nearest_mono_pos:
  assumes "0 < x" and "x \<le> y"
  shows "round_to_nearest x \<le> round_to_nearest y"
proof -
  from assms have ypos: "0 < y" by simp
  let ?jx = "max (binade x - 52) (- 1074)" and ?jy = "max (binade y - 52) (- 1074)"
  from assms have "binade x \<le> binade y" by (intro binade_mono) simp_all
  then have jle: "?jx \<le> ?jy" by linarith
  show ?thesis
  proof (cases "?jx = ?jy")
    case True
    have "x / 2 powi ?jx \<le> y / 2 powi ?jx"
      using assms(2) by (intro divide_right_mono) simp_all
    then have "round_half_even (x / 2 powi ?jx) \<le> round_half_even (y / 2 powi ?jx)"
      by (rule round_half_even_mono)
    then have "real_of_int (round_half_even (x / 2 powi ?jx)) * 2 powi ?jx
                 \<le> real_of_int (round_half_even (y / 2 powi ?jx)) * 2 powi ?jx"
      by (intro mult_right_mono) simp_all
    then show ?thesis
      unfolding round_to_nearest_pos [OF assms(1)] round_to_nearest_pos [OF ypos] True [symmetric] .
  next
    case False
    with jle have jlt: "?jx < ?jy" by linarith
    then have jy: "?jy = binade y - 52" by linarith
    from jlt have blt: "binade x < binade y" by linarith
    let ?A = "2 powi binade y :: real"
    have A1: "?A = 2 ^ 52 * 2 powi ?jy"
    proof -
      have "binade y = 52 + ?jy" using jy by simp
      then have "?A = 2 powi (52 + ?jy)" by simp
      also have "\<dots> = 2 powi 52 * 2 powi ?jy" by (intro power_int_add) simp
      finally show ?thesis by simp
    qed
    have ge: "?A \<le> round_to_nearest y"
    proof -
      from binade_bounds(1) [of y] ypos have "?A \<le> y" by simp
      then have "?A / 2 powi ?jy \<le> y / 2 powi ?jy"
        by (intro divide_right_mono) simp_all
      moreover have "?A / 2 powi ?jy = real_of_int (2 ^ 52)" by (simp add: A1)
      ultimately have "real_of_int (2 ^ 52) \<le> y / 2 powi ?jy" by simp
      then have "2 ^ 52 \<le> round_half_even (y / 2 powi ?jy)" by (rule round_half_even_ge)
      then have "real_of_int (2 ^ 52) \<le> real_of_int (round_half_even (y / 2 powi ?jy))"
        by (simp only: of_int_le_iff)
      then have "real_of_int (2 ^ 52) * 2 powi ?jy
                   \<le> real_of_int (round_half_even (y / 2 powi ?jy)) * 2 powi ?jy"
        by (intro mult_right_mono) simp_all
      then show ?thesis
        unfolding round_to_nearest_pos [OF ypos] A1 by simp
    qed
    have le: "round_to_nearest x \<le> ?A"
    proof -
      define d where "d = nat (binade y - ?jx)"
      have dpos: "0 \<le> binade y - ?jx" using jlt jy by linarith
      have A2: "?A = 2 ^ d * 2 powi ?jx"
      proof -
        have "binade y = int d + ?jx" using dpos by (simp add: d_def)
        then have "?A = 2 powi (int d + ?jx)" by simp
        also have "\<dots> = 2 powi (int d) * 2 powi ?jx" by (intro power_int_add) simp
        finally show ?thesis by simp
      qed
      from binade_bounds(2) [of x] assms(1) have "x < 2 powi (binade x + 1)" by simp
      also have "\<dots> \<le> ?A" using blt by (intro power_int_increasing) simp_all
      finally have "x \<le> ?A" by simp
      then have "x / 2 powi ?jx \<le> ?A / 2 powi ?jx"
        by (intro divide_right_mono) simp_all
      moreover have "?A / 2 powi ?jx = real_of_int (2 ^ d)" by (simp add: A2)
      ultimately have "x / 2 powi ?jx \<le> real_of_int (2 ^ d)" by simp
      then have "round_half_even (x / 2 powi ?jx) \<le> 2 ^ d" by (rule round_half_even_le)
      then have "real_of_int (round_half_even (x / 2 powi ?jx)) \<le> real_of_int (2 ^ d)"
        by (simp only: of_int_le_iff)
      then have "real_of_int (round_half_even (x / 2 powi ?jx)) * 2 powi ?jx
                   \<le> real_of_int (2 ^ d) * 2 powi ?jx"
        by (intro mult_right_mono) simp_all
      then show ?thesis
        unfolding round_to_nearest_pos [OF assms(1)] A2 by simp
    qed
    from le ge show ?thesis by simp
  qed
qed

lemma round_to_nearest_mono:
  assumes "x \<le> y"
  shows "round_to_nearest x \<le> round_to_nearest y"
proof (cases "0 < x")
  case True
  with assms show ?thesis by (intro round_to_nearest_mono_pos)
next
  case False
  then have xle: "x \<le> 0" by simp
  show ?thesis
  proof (cases "y < 0")
    case True
    with assms have "0 < - y" "- y \<le> - x" by simp_all
    then have "round_to_nearest (- y) \<le> round_to_nearest (- x)"
      by (intro round_to_nearest_mono_pos)
    then show ?thesis by (simp add: round_to_nearest_minus)
  next
    case False
    then have "0 \<le> round_to_nearest y" by (intro round_to_nearest_nonneg) simp
    moreover from xle have "0 \<le> round_to_nearest (- x)"
      by (intro round_to_nearest_nonneg) simp
    then have "round_to_nearest x \<le> 0" by (simp add: round_to_nearest_minus)
    ultimately show ?thesis by simp
  qed
qed

lemma round_to_nearest_abs:
  "\<bar>round_to_nearest x - x\<bar> =
     \<bar>real_of_int (round_half_even (\<bar>x\<bar> / 2 powi max (binade x - 52) (- 1074)))
        - \<bar>x\<bar> / 2 powi max (binade x - 52) (- 1074)\<bar> * 2 powi max (binade x - 52) (- 1074)"
proof (cases "x = 0")
  case True
  then show ?thesis by (simp add: round_to_nearest_def round_half_even_def)
next
  case False
  let ?j = "max (binade x - 52) (- 1074)"
  let ?r = "real_of_int (round_half_even (\<bar>x\<bar> / 2 powi ?j))"
  have u: "(0::real) < 2 powi ?j" by simp
  have "round_to_nearest x = sgn x * (?r * 2 powi ?j)"
    using False by (simp add: round_to_nearest_def Let_def)
  then have "round_to_nearest x - x = sgn x * (?r * 2 powi ?j) - sgn x * \<bar>x\<bar>"
    by (simp add: sgn_mult_abs)
  also have "\<dots> = sgn x * (?r * 2 powi ?j - \<bar>x\<bar>)"
    by (simp add: algebra_simps)
  also have "?r * 2 powi ?j - \<bar>x\<bar> = (?r - \<bar>x\<bar> / 2 powi ?j) * 2 powi ?j"
    using u by (simp add: field_simps)
  finally have "\<bar>round_to_nearest x - x\<bar> = \<bar>sgn x\<bar> * \<bar>(?r - \<bar>x\<bar> / 2 powi ?j) * 2 powi ?j\<bar>"
    by (simp only: abs_mult)
  also have "\<bar>sgn x\<bar> = 1" using False by (simp add: abs_sgn_eq)
  finally show ?thesis using u by (simp add: abs_mult)
qed

lemma round_to_nearest_error:
  assumes "1 / 2 ^ 1022 \<le> \<bar>x\<bar>"
  shows "\<bar>round_to_nearest x - x\<bar> \<le> \<bar>x\<bar> / 2 ^ 53"
proof -
  have "(0::real) < 1 / 2 ^ 1022" by simp
  with assms have nz: "x \<noteq> 0" by auto
  have "(2::real) powi (- 1022) = 1 / 2 ^ 1022"
    by (simp add: power_int_minus field_simps)
  with assms binade_bounds(2) [OF nz] have lt: "(2::real) powi (- 1022) < 2 powi (binade x + 1)"
    by linarith
  have "- 1022 < binade x + 1"
  proof (rule ccontr)
    assume "\<not> - 1022 < binade x + 1"
    then have "binade x + 1 \<le> - 1022" by simp
    then have "(2::real) powi (binade x + 1) \<le> 2 powi (- 1022)"
      by (intro power_int_increasing) simp_all
    with lt show False by linarith
  qed
  then have j: "max (binade x - 52) (- 1074) = binade x - 52" by linarith
  let ?u = "2 powi (binade x - 52) :: real"
  have u: "?u = 2 powi binade x / 2 ^ 52"
    by (subst power_int_diff) simp_all
  have "\<bar>round_to_nearest x - x\<bar> =
          \<bar>real_of_int (round_half_even (\<bar>x\<bar> / ?u)) - \<bar>x\<bar> / ?u\<bar> * ?u"
    using round_to_nearest_abs [of x] by (simp only: j)
  also have "\<dots> \<le> 1 / 2 * ?u"
    using round_half_even_error [of "\<bar>x\<bar> / ?u"] by (intro mult_right_mono) simp_all
  also have "\<dots> = 2 powi binade x / 2 ^ 53" by (simp add: u)
  also have "\<dots> \<le> \<bar>x\<bar> / 2 ^ 53"
    using binade_bounds(1) [OF nz] by (intro divide_right_mono) simp_all
  finally show ?thesis .
qed

lemma round_to_nearest_exact:
  assumes "is_double x"
  shows "round_to_nearest x = x"
proof (cases "x = 0")
  case True
  then show ?thesis by (simp add: round_to_nearest_def)
next
  case False
  from assms obtain m k where m: "\<bar>m\<bar> < 2 ^ 53" and k: "- 1074 \<le> k"
    and x: "x = real_of_int m * 2 powi k"
    unfolding is_double_def by blast
  let ?j = "max (binade x - 52) (- 1074)"
  have ax: "\<bar>x\<bar> = real_of_int \<bar>m\<bar> * 2 powi k" by (simp add: x abs_mult)
  have jk: "?j \<le> k"
  proof (rule ccontr)
    assume "\<not> ?j \<le> k"
    with k have "k + 53 \<le> binade x" by linarith
    then have "(2::real) powi (k + 53) \<le> 2 powi binade x"
      by (intro power_int_increasing) simp_all
    also have "\<dots> \<le> \<bar>x\<bar>" by (rule binade_bounds(1) [OF False])
    finally have "2 powi (k + 53) \<le> real_of_int \<bar>m\<bar> * 2 powi k" by (simp only: ax)
    moreover have "(2::real) powi (k + 53) = 2 ^ 53 * 2 powi k"
      by (subst add.commute, subst power_int_add) simp_all
    ultimately have "(2 ^ 53 :: real) * 2 powi k \<le> real_of_int \<bar>m\<bar> * 2 powi k" by simp
    then have "(2 ^ 53 :: real) \<le> real_of_int \<bar>m\<bar>"
      by (rule mult_right_le_imp_le) simp
    then have "(2 ^ 53 :: int) \<le> \<bar>m\<bar>" by (simp flip: of_int_le_iff)
    with m show False by simp
  qed
  define d where "d = nat (k - ?j)"
  have kd: "k = int d + ?j" using jk by (simp add: d_def)
  have "(2::real) powi k = 2 powi (int d + ?j)" using kd by simp
  also have "\<dots> = 2 ^ d * 2 powi ?j" by (subst power_int_add) simp_all
  finally have pk: "(2::real) powi k = 2 ^ d * 2 powi ?j" .
  have q: "\<bar>x\<bar> / 2 powi ?j = real_of_int (\<bar>m\<bar> * 2 ^ d)"
    by (simp add: ax pk)
  have "round_to_nearest x = sgn x * (real_of_int (\<bar>m\<bar> * 2 ^ d) * 2 powi ?j)"
    using False by (simp only: round_to_nearest_def Let_def q round_half_even_of_int if_False)
  also have "real_of_int (\<bar>m\<bar> * 2 ^ d) * 2 powi ?j = \<bar>x\<bar>"
    by (simp add: ax pk)
  also have "sgn x * \<bar>x\<bar> = x" by (simp add: sgn_mult_abs)
  finally show ?thesis .
qed

lemma fl_round_to_nearest: "fl round_to_nearest x = round_to_nearest x"
  by (simp add: fl_def round_to_nearest_exact)

lemma round_half_even_eq:
  assumes "real_of_int r - 1 / 2 < q" and "q < real_of_int r + 1 / 2"
  shows "round_half_even q = r"
proof (cases "real_of_int r \<le> q")
  case True
  with assms have "\<lfloor>q\<rfloor> = r" by (intro floor_unique) simp_all
  with assms show ?thesis by (simp add: round_half_even_def Let_def)
next
  case False
  with assms have "\<lfloor>q\<rfloor> = r - 1" by (intro floor_unique) simp_all
  with assms False show ?thesis by (simp add: round_half_even_def Let_def)
qed

lemma round_to_nearest_eval:
  assumes "2 powi e \<le> x" and "x < 2 powi (e + 1)" and "- 1022 \<le> e"
    and "real_of_int r - 1 / 2 < x / 2 powi (e - 52)"
    and "x / 2 powi (e - 52) < real_of_int r + 1 / 2"
  shows "round_to_nearest x = real_of_int r * 2 powi (e - 52)"
proof -
  have "(0::real) < 2 powi e" by simp
  with assms(1) have pos: "0 < x" by linarith
  with assms(1,2) have "binade x = e" by (intro binade_eq) simp_all
  with assms(3) have j: "max (binade x - 52) (- 1074) = e - 52" by linarith
  from round_half_even_eq [OF assms(4,5)] show ?thesis
    by (simp add: round_to_nearest_pos [OF pos] j)
qed

lemma round_to_nearest_numeral:
  "(numeral w :: int) < 2 ^ 53 \<Longrightarrow> round_to_nearest (numeral w) = numeral w"
  using round_to_nearest_exact [OF is_double_int [of "numeral w"]] by simp

text \<open>The result of the rounding to nearest is a double.\<close>

lemma round_to_nearest_is_double: "is_double (round_to_nearest x)"
proof (cases "x = 0")
  case True
  then show ?thesis using is_double_int [of 0] by (simp add: round_to_nearest_def)
next
  case False
  let ?j = "max (binade x - 52) (- 1074)"
  let ?q = "\<bar>x\<bar> / 2 powi ?j"
  define r where "r = round_half_even ?q"
  have j: "- 1074 \<le> ?j" by simp
  have "binade x + 1 \<le> 53 + ?j" by linarith
  then have "(2::real) powi (binade x + 1) \<le> 2 powi (53 + ?j)"
    by (intro power_int_increasing) simp_all
  also have "\<dots> = 2 ^ 53 * 2 powi ?j" by (subst power_int_add) simp_all
  finally have "\<bar>x\<bar> \<le> 2 ^ 53 * 2 powi ?j"
    using binade_bounds(2) [OF False] by linarith
  then have "?q \<le> real_of_int (2 ^ 53)" by (simp add: field_simps)
  then have r_le: "r \<le> 2 ^ 53" unfolding r_def by (rule round_half_even_le)
  have "real_of_int 0 \<le> ?q" by simp
  then have r_ge: "0 \<le> r" unfolding r_def by (rule round_half_even_ge)
  have val: "round_to_nearest x = sgn x * (real_of_int r * 2 powi ?j)"
    using False by (simp add: round_to_nearest_def Let_def r_def)
  have sg: "sgn x = 1 \<or> sgn x = - 1" using False by (auto simp add: sgn_if)
  show ?thesis
  proof (cases "r = 2 ^ 53")
    case True
    have "(2::real) powi (?j + 1) = 2 * 2 powi ?j"
      by (subst add.commute, subst power_int_add) simp_all
    then have "round_to_nearest x = real_of_int (if 0 < x then 2 ^ 52 else - (2 ^ 52)) * 2 powi (?j + 1)"
      using False by (simp add: val True sgn_if)
    moreover have "\<bar>if 0 < x then 2 ^ 52 else - (2 ^ 52) :: int\<bar> < 2 ^ 53" by simp
    moreover have "- 1074 \<le> ?j + 1" by simp
    ultimately show ?thesis unfolding is_double_def by blast
  next
    case False
    with r_le have "r < 2 ^ 53" by simp
    with r_ge have "\<bar>if 0 < x then r else - r\<bar> < 2 ^ 53" by simp
    moreover have "round_to_nearest x = real_of_int (if 0 < x then r else - r) * 2 powi ?j"
      using \<open>x \<noteq> 0\<close> by (simp add: val sgn_if)
    ultimately show ?thesis unfolding is_double_def using j by blast
  qed
qed

text \<open>
  The rounding to nearest has the two properties that the proofs above use: it is
  monotone, and its relative error on the normal doubles is at most \<open>1 / 2 ^ 53\<close>.
\<close>

lemma fl_round_to_nearest_mono:
  "x \<le> y \<Longrightarrow> fl round_to_nearest x \<le> fl round_to_nearest y"
  by (simp add: fl_round_to_nearest round_to_nearest_mono)

lemma fl_round_to_nearest_error:
  assumes "1 / 2 ^ 1022 \<le> \<bar>x\<bar>"
  shows "\<bar>fl round_to_nearest x - x\<bar> \<le> \<bar>x\<bar> / 2 ^ 52"
proof -
  have "\<bar>x\<bar> / 2 ^ 53 \<le> \<bar>x\<bar> / 2 ^ 52"
    by (intro divide_left_mono) simp_all
  with round_to_nearest_error [OF assms] show ?thesis
    by (simp add: fl_round_to_nearest)
qed

subsection \<open>Evaluation\<close>

text \<open>
  The facts that evaluate \<open>Derive\<close> on a given model. The examples below are chosen so
  that every result of their arithmetic is a double, and so is not rounded.
\<close>

lemmas derive_eval =
  Derive_def derive_table_def GetColumnByName_def store_derived_def probabilities_def
  AddColumn_def quantile_column_def read_at_def quantile_indices_def Let_def upto.simps
  first_quantile_index_def second_quantile_index_def dh_double_def np_double_def
  averaged_step_def to_double_def double_of_int_def general_label_def label_fraction_def
  cdf_at_def advance_rank.simps c_round_def
  quantile_labels_def quantile_label_def shift_left_2_def
  signed_divide_int_def signed_modulo_int_def
  fl_zero fl_one fl_numeral fl_neg_numeral fl_half fl_quarter fl_eighth
  fl_numeral_div_2 fl_numeral_div_4 fl_numeral_div_8

section \<open>Facts about the learn phase\<close>

lemma sum_list_positive:
  fixes xs :: "int list"
  shows "xs \<noteq> [] \<Longrightarrow> \<forall>x \<in> set xs. 0 < x \<Longrightarrow> 0 < sum_list xs"
proof (induction xs)
  case Nil
  then show ?case by simp
next
  case (Cons x xs)
  then have "0 < x" by simp
  moreover have "0 \<le> sum_list xs"
    using Cons.prems(2) by (intro sum_list_nonneg) auto
  ultimately show ?case by simp
qed

text \<open>
  The keys of a histogram of doubles. Without NaN among the values the comparison of
  doubles is a linear order on them, and the histogram holds each value once, in
  ascending order. (NaN is neither below nor above any key: it would be counted with
  the key it is compared with first.)
\<close>

lemma histogram_increment_keys:
  assumes "key \<noteq> NaN"
  shows "NaN \<notin> fst ` set h \<Longrightarrow>
         fst ` set (histogram_increment double_less key h) = insert key (fst ` set h)"
proof (induction h)
  case Nil
  then show ?case by simp
next
  case (Cons p h)
  obtain k c where p: "p = (k, c)" by (cases p)
  from Cons.prems p have k: "k \<noteq> NaN" and rest: "NaN \<notin> fst ` set h" by auto
  show ?case
  proof (cases "double_less key k")
    case True
    with p show ?thesis by auto
  next
    case False
    show ?thesis
    proof (cases "double_less k key")
      case True
      with False p Cons.IH [OF rest] show ?thesis by auto
    next
      case nlt: False
      with False assms k have "key = k" by (intro double_less_trichotomy)
      with p show ?thesis using double_less_irrefl [of k] by auto
    qed
  qed
qed

lemma histogram_increment_sorted:
  assumes "key \<noteq> NaN"
  shows "NaN \<notin> fst ` set h \<Longrightarrow> sorted_wrt double_less (map fst h) \<Longrightarrow>
         sorted_wrt double_less (map fst (histogram_increment double_less key h))"
proof (induction h)
  case Nil
  then show ?case by simp
next
  case (Cons p h)
  obtain k c where p: "p = (k, c)" by (cases p)
  from Cons.prems p have kn: "k \<noteq> NaN" and rest: "NaN \<notin> fst ` set h"
    and k: "\<forall>y \<in> fst ` set h. double_less k y" and srt: "sorted_wrt double_less (map fst h)"
    by auto
  show ?case
  proof (cases "double_less key k")
    case True
    with k have "\<forall>y \<in> fst ` set h. double_less key y"
      by (auto intro: double_less_trans)
    with True p k srt show ?thesis by auto
  next
    case False
    show ?thesis
    proof (cases "double_less k key")
      case True
      have "\<forall>y \<in> fst ` set (histogram_increment double_less key h). double_less k y"
        using k True by (simp only: histogram_increment_keys [OF assms rest]) auto
      with True False p Cons.IH [OF rest srt] show ?thesis by simp
    next
      case nlt: False
      with False p k srt show ?thesis by simp
    qed
  qed
qed

lemma histogram_increment_counts:
  "\<forall>p \<in> set h. 0 < snd p \<Longrightarrow> \<forall>p \<in> set (histogram_increment precedes key h). 0 < snd p"
proof (induction h)
  case Nil
  then show ?case by simp
next
  case (Cons q h)
  obtain k c where q: "q = (k, c)" by (cases q)
  from Cons.prems q have c: "0 < c" and rest: "\<forall>p \<in> set h. 0 < snd p" by auto
  from Cons.IH [OF rest] have ih: "\<forall>p \<in> set (histogram_increment precedes key h). 0 < snd p" .
  show ?case unfolding q using c rest ih by simp
qed

lemma histogram_increment_not_Nil: "histogram_increment precedes key h \<noteq> []"
  by (cases h) (auto split: if_splits)

lemma calculate_histogram_snoc:
  "calculate_histogram precedes (vals @ [v])
     = histogram_increment precedes v (calculate_histogram precedes vals)"
  by (simp add: calculate_histogram_def)

lemma calculate_histogram_sorted:
  "NaN \<notin> set vals \<Longrightarrow>
     sorted_wrt double_less (map fst (calculate_histogram double_less vals)) \<and>
     fst ` set (calculate_histogram double_less vals) = set vals \<and>
     (\<forall>p \<in> set (calculate_histogram double_less vals). 0 < snd p) \<and>
     (vals \<noteq> [] \<longrightarrow> calculate_histogram double_less vals \<noteq> [])"
proof (induction vals rule: rev_induct)
  case Nil
  then show ?case by (simp add: calculate_histogram_def)
next
  case (snoc v vals)
  let ?h = "calculate_histogram double_less vals"
  from snoc.prems have v: "v \<noteq> NaN" and rest: "NaN \<notin> set vals" by auto
  from snoc.IH [OF rest] have s: "sorted_wrt double_less (map fst ?h)"
    and keys: "fst ` set ?h = set vals"
    and c: "\<forall>p \<in> set ?h. 0 < snd p" by simp_all
  from keys rest have nn: "NaN \<notin> fst ` set ?h" by simp
  show ?case
    unfolding calculate_histogram_snoc
    using histogram_increment_sorted [OF v nn s] histogram_increment_keys [OF v nn] keys
      histogram_increment_counts [OF c, of double_less v]
      histogram_increment_not_Nil [of double_less v ?h]
    by simp
qed

text \<open>
  The histogram table that the learn phase builds for a numeric column without NaN and
  with at least one row is as the theorem about the order of the quantiles below takes
  it: the values after the cardinality row are those of the column, in ascending order,
  the two columns have the same size, there is a row after the cardinality row, the
  counts are positive, and there is no column \<open>P\<close> yet.
\<close>

lemma histogram_table_numeric:
  assumes "histogram_table mem variant_less (vtkDoubleArray column) nRow = Some histogramTab"
    and "1 \<le> nRow" and "column \<noteq> []" and "NaN \<notin> set column"
  shows "\<exists>dvals cards.
           GetColumnByName histogramTab ''Value'' = Some (vtkDoubleArray dvals) \<and>
           GetColumnByName histogramTab ''Cardinality'' = Some (vtkIdTypeArray cards) \<and>
           GetColumnByName histogramTab ''P'' = None \<and>
           length dvals = length cards \<and> 2 \<le> length cards \<and>
           sorted_wrt double_le (tl dvals) \<and> set (tl dvals) = set (take nRow column) \<and>
           NaN \<notin> set (tl dvals) \<and>
           (\<forall>c \<in> set (tl cards). 0 < c) \<and> 0 < sum_list (tl cards)"
proof -
  let ?h = "calculate_histogram double_less (take nRow column)"
  from assms(2,3) have ne: "take nRow column \<noteq> []" by (cases column) auto
  from assms(4) have nn: "NaN \<notin> set (take nRow column)" by (auto dest: in_set_takeD)
  from calculate_histogram_sorted [OF nn] ne
  have s: "sorted_wrt double_less (map fst ?h)" and keys: "fst ` set ?h = set (take nRow column)"
    and c: "\<forall>c \<in> set (map snd ?h). 0 < c" and n: "?h \<noteq> []" by auto
  from s have s': "sorted_wrt double_le (map fst ?h)"
    by (rule sorted_wrt_mono_rel [rotated]) (simp add: double_less_imp_le)
  from n have n': "map snd ?h \<noteq> []" by simp
  have pos: "0 < sum_list (map snd ?h)" by (rule sum_list_positive [OF n' c])
  from assms(1) have tab: "histogramTab =
      [(''Value'', vtkDoubleArray (NaN # map fst ?h)),
       (''Cardinality'', vtkIdTypeArray (- 1 # map snd ?h))]"
    by (simp add: histogram_table_def Let_def)
  have len: "2 \<le> length (- 1 # map snd ?h)" using n by (cases ?h) auto
  from keys nn have nn': "NaN \<notin> set (map fst ?h)" by simp
  from keys have keys': "set (map fst ?h) = set (take nRow column)" by simp
  show ?thesis
    unfolding tab using s' c pos len nn' keys'
    by (intro exI [of _ "NaN # map fst ?h"] exI [of _ "- 1 # map snd ?h"])
       (simp add: GetColumnByName_def)
qed

text \<open>
  For a column without rows the learn phase builds the histogram table that has only its
  cardinality row, and appends it to the model like any other.
\<close>

lemma learn_requests_no_rows:
  "learn_requests mem variant_less [(''x'', vtkDoubleArray [])] [''x''] []
     = [(''x'', Some (Table [(''Value'', vtkDoubleArray [NaN]),
                            (''Cardinality'', vtkIdTypeArray [- 1])]))]"
  by (simp add: GetColumnByName_def GetNumberOfRows_def histogram_table_def
      calculate_histogram_def)
section \<open>Facts about the quantizer scan\<close>

lemma quantizer_scan_ge: "q \<le> quantizer_scan qs v q"
proof (induction qs v q rule: quantizer_scan.induct)
  case (1 qs v q)
  show ?case
  proof (cases "q < length qs \<and> v > qs ! q")
    case True
    with 1 have "Suc q \<le> quantizer_scan qs v (Suc q)" by simp
    with True show ?thesis by (subst quantizer_scan.simps) simp
  next
    case False
    then show ?thesis by (subst quantizer_scan.simps) auto
  qed
qed

lemma quantizer_scan_le: "q \<le> length qs \<Longrightarrow> quantizer_scan qs v q \<le> length qs"
proof (induction qs v q rule: quantizer_scan.induct)
  case (1 qs v q)
  show ?case
  proof (cases "q < length qs \<and> v > qs ! q")
    case True
    with 1 have "quantizer_scan qs v (Suc q) \<le> length qs" by simp
    with True show ?thesis by (subst quantizer_scan.simps) simp
  next
    case False
    with 1 show ?thesis by (subst quantizer_scan.simps) auto
  qed
qed

lemma quantizer_scan_stop:
  "quantizer_scan qs v q < length qs \<Longrightarrow> v \<le> qs ! quantizer_scan qs v q"
proof (induction qs v q rule: quantizer_scan.induct)
  case (1 qs v q)
  show ?case
  proof (cases "q < length qs \<and> v > qs ! q")
    case True
    then have eq: "quantizer_scan qs v q = quantizer_scan qs v (Suc q)"
      by (subst quantizer_scan.simps) simp
    with 1 True show ?thesis by simp
  next
    case False
    then have eq: "quantizer_scan qs v q = q"
      by (subst quantizer_scan.simps) auto
    with 1 False show ?thesis by auto
  qed
qed

lemma quantizer_scan_passed:
  "q \<le> j \<Longrightarrow> j < quantizer_scan qs v q \<Longrightarrow> qs ! j < v \<and> j < length qs"
proof (induction qs v q rule: quantizer_scan.induct)
  case (1 qs v q)
  show ?case
  proof (cases "q < length qs \<and> v > qs ! q")
    case True
    then have eq: "quantizer_scan qs v q = quantizer_scan qs v (Suc q)"
      by (subst quantizer_scan.simps) simp
    show ?thesis
    proof (cases "j = q")
      case True
      with \<open>q < length qs \<and> v > qs ! q\<close> show ?thesis by simp
    next
      case False
      with 1 True eq show ?thesis by simp
    qed
  next
    case False
    then have "quantizer_scan qs v q = q"
      by (subst quantizer_scan.simps) auto
    with 1 show ?thesis by simp
  qed
qed

lemma quantizer_scan_mono:
  "v \<le> w \<Longrightarrow> quantizer_scan qs v q \<le> quantizer_scan qs w q"
proof (induction qs v q rule: quantizer_scan.induct)
  case (1 qs v q)
  show ?case
  proof (cases "q < length qs \<and> v > qs ! q")
    case True
    with 1 have "q < length qs \<and> w > qs ! q" by auto
    then have "quantizer_scan qs w q = quantizer_scan qs w (Suc q)"
      by (subst quantizer_scan.simps) simp
    moreover from True have "quantizer_scan qs v q = quantizer_scan qs v (Suc q)"
      by (subst quantizer_scan.simps) simp
    ultimately show ?thesis using 1 True by simp
  next
    case False
    then have "quantizer_scan qs v q = q"
      by (subst quantizer_scan.simps) auto
    then show ?thesis by (simp add: quantizer_scan_ge)
  qed
qed

lemma Quantizer_below: "qs \<noteq> [] \<Longrightarrow> v < qs ! 0 \<Longrightarrow> Quantizer qs v = Some 0"
  by (cases qs) (simp_all add: Quantizer_def)

lemma Quantizer_scan: 
  "qs \<noteq> [] \<Longrightarrow> \<not> v < qs ! 0 \<Longrightarrow> Quantizer qs v = Some (quantizer_scan qs v 1)"
  by (cases qs) (simp_all add: Quantizer_def)

lemma Quantizer_mono:
  assumes "qs \<noteq> []" and "v \<le> w"
  shows "the (Quantizer qs v) \<le> the (Quantizer qs w)"
proof (cases "v < qs ! 0")
  case True
  with assms show ?thesis by (simp add: Quantizer_below)
next
  case False
  with assms have "\<not> w < qs ! 0" by auto
  with False assms show ?thesis
    by (simp add: Quantizer_scan quantizer_scan_mono)
qed

subsection \<open>Claims about the quantizer\<close>

text \<open>
  C3 (as the code has it). With \<open>N + 1\<close> stored breakpoints, an observation strictly
  below breakpoint 0 is given bucket 0. Any other observation is given the smallest index
  \<open>q \<ge> 1\<close> whose breakpoint is at least the observation, and \<open>N + 1\<close> when it is
  above every breakpoint of index \<open>1..N\<close>; the scan starts at index 1, so an observation
  equal to breakpoint 0 is given 1, not 0. The bucket always lies in \<open>[0, N + 1]\<close>.
\<close>

theorem Quantizer_bucket:
  assumes "length quantiles = Suc N"
  shows "(dval < quantiles ! 0 \<longrightarrow> Quantizer quantiles dval = Some 0) \<and>
         (\<not> dval < quantiles ! 0 \<longrightarrow>
            (\<exists>q. Quantizer quantiles dval = Some q \<and> 1 \<le> q \<and> q \<le> Suc N \<and>
                 (\<forall>j. 1 \<le> j \<and> j < q \<longrightarrow> quantiles ! j < dval) \<and>
                 (q \<le> N \<longrightarrow> dval \<le> quantiles ! q))) \<and>
         (\<exists>q. Quantizer quantiles dval = Some q \<and> q \<le> Suc N)"
proof -
  from assms have ne: "quantiles \<noteq> []" by auto
  let ?q = "quantizer_scan quantiles dval 1"
  have below: "dval < quantiles ! 0 \<Longrightarrow> Quantizer quantiles dval = Some 0"
    using ne by (rule Quantizer_below)
  have above: "\<not> dval < quantiles ! 0 \<Longrightarrow> Quantizer quantiles dval = Some ?q"
    using ne by (rule Quantizer_scan)
  have lo: "1 \<le> ?q" by (rule quantizer_scan_ge)
  have hi: "?q \<le> Suc N" using quantizer_scan_le [of 1 quantiles dval] assms by simp
  have passed: "\<forall>j. 1 \<le> j \<and> j < ?q \<longrightarrow> quantiles ! j < dval"
    using quantizer_scan_passed [of 1 _ quantiles dval] by blast
  have stop: "?q \<le> N \<longrightarrow> dval \<le> quantiles ! ?q"
    using quantizer_scan_stop [of quantiles dval 1] assms by simp
  show ?thesis
  proof (cases "dval < quantiles ! 0")
    case True
    with below show ?thesis by simp
  next
    case False
    with above lo hi passed stop show ?thesis by simp
  qed
qed

theorem Quantizer_bucket_witness:
  "length [1, 2, 3 :: int] = Suc 2 \<and>
   Quantizer [1, 2, 3 :: int] 0 = Some 0 \<and>
   Quantizer [1, 2, 3 :: int] 1 = Some 1 \<and>
   Quantizer [1, 2, 3 :: int] 3 = Some 2 \<and>
   Quantizer [1, 2, 3 :: int] 4 = Some 3"
  using Quantizer_bucket [of "[1, 2, 3 :: int]" 2 0]
        Quantizer_bucket [of "[1, 2, 3 :: int]" 2 1]
  by (simp add: Quantizer_def quantizer_scan.simps)

text \<open>
  C3 as stated fails twice on breakpoints 1, 2, 3 (\<open>N = 2\<close>): the observation 1 equals
  breakpoint 0, whose index 0 is the smallest with a breakpoint at least 1, yet the
  bucket is 1; and the observation 4 is given bucket 3, outside \<open>[0, N]\<close>.
\<close>

theorem Quantizer_bucket_counterexample:
  "\<not> (1::int) < [1, 2, 3] ! 0 \<and>
   Quantizer [1, 2, 3 :: int] 1 \<noteq> Some (spec_smallest_index [1, 2, 3] 1) \<and>
   \<not> the (Quantizer [1, 2, 3 :: int] 4) \<le> 2"
  by (simp add: Quantizer_def quantizer_scan.simps spec_smallest_index_def)

text \<open>
  C4 (as the code has it). For \<open>N \<ge> 1\<close> ascending breakpoints \<open>0..N\<close>: quantizing the
  minimum breakpoint gives 1 (bucket 0 is kept for observations strictly below it);
  quantizing the maximum breakpoint gives the smallest index \<open>q \<ge> 1\<close> that holds the
  maximum value, which is at most \<open>N\<close> and is \<open>N\<close> when breakpoint \<open>N - 1\<close> is strictly
  smaller; and a non-decreasing list of observations is given a non-decreasing list of
  buckets.
\<close>

theorem Quantizer_roundtrip:
  assumes len: "length quantiles = Suc N" and N: "1 \<le> N" and srt: "sorted quantiles"
  shows "Quantizer quantiles (quantiles ! 0) = Some 1 \<and>
         (\<exists>q. Quantizer quantiles (quantiles ! N) = Some q \<and> 1 \<le> q \<and> q \<le> N \<and>
              quantiles ! q = quantiles ! N \<and>
              (\<forall>j. 1 \<le> j \<and> j < q \<longrightarrow> quantiles ! j < quantiles ! N) \<and>
              (quantiles ! (N - 1) < quantiles ! N \<longrightarrow> q = N)) \<and>
         (sorted obs \<longrightarrow> sorted (map (\<lambda>v. the (Quantizer quantiles v)) obs))"
proof -
  from len have ne: "quantiles \<noteq> []" by auto
  have nth_mono: "\<And>i j. i \<le> j \<Longrightarrow> j \<le> N \<Longrightarrow> quantiles ! i \<le> quantiles ! j"
    using srt len by (simp add: sorted_nth_mono)
  \<comment> \<open>the minimum breakpoint\<close>
  have "\<not> quantiles ! 0 > quantiles ! 1" using nth_mono [of 0 1] N by auto
  then have "quantizer_scan quantiles (quantiles ! 0) 1 = 1"
    by (subst quantizer_scan.simps) simp
  then have first: "Quantizer quantiles (quantiles ! 0) = Some 1"
    using Quantizer_scan [OF ne, of "quantiles ! 0"] by simp
  \<comment> \<open>the maximum breakpoint\<close>
  let ?m = "quantiles ! N"
  let ?q = "quantizer_scan quantiles ?m 1"
  have "\<not> ?m < quantiles ! 0" using nth_mono [of 0 N] by auto
  then have qmax: "Quantizer quantiles ?m = Some ?q" by (rule Quantizer_scan [OF ne])
  have lo: "1 \<le> ?q" by (rule quantizer_scan_ge)
  have passed: "\<forall>j. 1 \<le> j \<and> j < ?q \<longrightarrow> quantiles ! j < ?m"
    using quantizer_scan_passed [of 1 _ quantiles ?m] by blast
  have hi: "?q \<le> N"
  proof (rule ccontr)
    assume "\<not> ?q \<le> N"
    with N passed have "quantiles ! N < ?m" by auto
    then show False by simp
  qed
  have "?m \<le> quantiles ! ?q"
    using quantizer_scan_stop [of quantiles ?m 1] hi len by simp
  with nth_mono [OF hi] have eq: "quantiles ! ?q = ?m" by auto
  have strict: "quantiles ! (N - 1) < ?m \<longrightarrow> ?q = N"
  proof
    assume less: "quantiles ! (N - 1) < ?m"
    show "?q = N"
    proof (rule ccontr)
      assume "?q \<noteq> N"
      with hi have "?q \<le> N - 1" by simp
      then have "quantiles ! ?q \<le> quantiles ! (N - 1)" by (rule nth_mono) simp
      with eq less show False by simp
    qed
  qed
  \<comment> \<open>sorted observations\<close>
  have mono: "sorted obs \<longrightarrow> sorted (map (\<lambda>v. the (Quantizer quantiles v)) obs)"
  proof
    assume "sorted obs"
    then have "sorted_wrt (\<lambda>v w. the (Quantizer quantiles v) \<le> the (Quantizer quantiles w)) obs"
      by (rule sorted_wrt_mono_rel [rotated]) (simp add: Quantizer_mono [OF ne])
    then show "sorted (map (\<lambda>v. the (Quantizer quantiles v)) obs)"
      by (simp add: sorted_map)
  qed
  from first qmax lo hi eq passed strict mono show ?thesis by simp
qed

theorem Quantizer_roundtrip_witness:
  "length [1, 2, 4 :: int] = Suc 2 \<and> (1::nat) \<le> 2 \<and> sorted [1, 2, 4 :: int] \<and>
   sorted [0, 1, 3, 4, 5 :: int] \<and> [1, 2, 4 :: int] ! (2 - 1) < [1, 2, 4] ! 2 \<and>
   Quantizer [1, 2, 4 :: int] 1 = Some 1 \<and>
   Quantizer [1, 2, 4 :: int] 4 = Some 2 \<and>
   map (\<lambda>v. the (Quantizer [1, 2, 4 :: int] v)) [0, 1, 3, 4, 5] = [0, 1, 2, 2, 3]"
  using Quantizer_roundtrip [of "[1, 2, 4 :: int]" 2 "[0, 1, 3, 4, 5]"]
  by (simp add: Quantizer_def quantizer_scan.simps)

text \<open>
  C4 as stated fails on breakpoints 1, 2, 3: quantizing the minimum breakpoint 1 gives
  bucket 1, not 0. On breakpoints 1, 2, 2 the maximum breakpoint 2 is given bucket 1,
  not \<open>N = 2\<close>.
\<close>

theorem Quantizer_roundtrip_counterexample:
  "Quantizer [1, 2, 3 :: int] ([1, 2, 3] ! 0) \<noteq> Some 0 \<and>
   Quantizer [1, 2, 2 :: int] ([1, 2, 2] ! 2) \<noteq> Some 2"
  by (simp add: Quantizer_def quantizer_scan.simps)

section \<open>Facts about the labels\<close>

lemma shift_left_2_eq:
  assumes "0 \<le> i" and "i < 2 ^ 29"
  shows "shift_left_2 i = 4 * i"
proof -
  have "push_bit 2 (word_of_int i :: 32 word) = word_of_int (4 * i)"
    by (simp add: push_bit_eq_mult)
  moreover have "sint (word_of_int (4 * i) :: 32 word) = (4 * i + 2 ^ 31) mod 2 ^ 32 - 2 ^ 31"
    by (subst int_word_sint) simp
  moreover have "(4 * i + 2 ^ 31) mod 2 ^ 32 = 4 * i + (2 ^ 31 :: int)"
    using assms by (intro mod_pos_pos_trivial) auto
  ultimately show ?thesis by (simp add: shift_left_2_def)
qed

lemma sdiv_smod_nonneg:
  "0 \<le> a \<Longrightarrow> 0 < b \<Longrightarrow> (a::int) sdiv b = a div b \<and> a smod b = a mod b"
  by (simp add: signed_divide_int_def signed_modulo_int_def sgn_if)

lemma quot_range:
  assumes "0 < N" and "0 \<le> k" and "k \<le> N"
  shows "0 \<le> (4 * k) div N \<and> (4 * k) div N \<le> (4::int)"
proof -
  have "(4 * k) div N \<le> (4 * N) div N"
    using assms by (intro zdiv_mono1) auto
  moreover have "0 \<le> (4 * k) div N"
    using assms by (simp add: pos_imp_zdiv_nonneg_iff)
  ultimately show ?thesis using assms by simp
qed

lemma general_label_not_special:
  "general_label ToString mem N i \<noteq> ''Minimum''"
  "general_label ToString mem N i \<noteq> ''First Quartile''"
  "general_label ToString mem N i \<noteq> ''Median''"
  "general_label ToString mem N i \<noteq> ''Third Quartile''"
  "general_label ToString mem N i \<noteq> ''Maximum''"
proof -
  have e: "last (general_label ToString mem N i) = CHR ''e''"
    by (simp add: general_label_def)
  have l4: "length (general_label ToString mem N i) \<ge> 9"
    by (simp add: general_label_def)
  have n: "(general_label ToString mem N i) ! (length (general_label ToString mem N i) - 5) = CHR ''n''"
    by (simp add: general_label_def Let_def nth_append)
  show "general_label ToString mem N i \<noteq> ''Minimum''"
    using e by (auto dest: arg_cong [where f = last])
  show "general_label ToString mem N i \<noteq> ''Median''"
    using e by (auto dest: arg_cong [where f = last])
  show "general_label ToString mem N i \<noteq> ''Maximum''"
    using e by (auto dest: arg_cong [where f = last])
  show "general_label ToString mem N i \<noteq> ''First Quartile''"
  proof
    assume a: "general_label ToString mem N i = ''First Quartile''"
    from n show False unfolding a by simp
  qed
  show "general_label ToString mem N i \<noteq> ''Third Quartile''"
  proof
    assume a: "general_label ToString mem N i = ''Third Quartile''"
    from n show False unfolding a by simp
  qed
qed

lemma quantile_label_unfold:
  assumes "0 < N" and "N < 2 ^ 29" and "0 \<le> k" and "k \<le> N"
  shows "quantile_label ToString mem N k =
           (if (4 * k) mod N \<noteq> 0 then general_label ToString mem N k
            else if (4 * k) div N = 0 then ''Minimum''
            else if (4 * k) div N = 1 then ''First Quartile''
            else if (4 * k) div N = 2 then ''Median''
            else if (4 * k) div N = 3 then ''Third Quartile''
            else ''Maximum'')"
proof -
  from assms have sh: "shift_left_2 k = 4 * k" by (intro shift_left_2_eq) auto
  from assms have sd: "(4 * k) sdiv N = (4 * k) div N" "(4 * k) smod N = (4 * k) mod N"
    using sdiv_smod_nonneg [of "4 * k" N] by auto
  from quot_range [OF assms(1,3,4)]
  have "(4 * k) div N \<in> {0, 1, 2, 3, 4}" by auto
  then show ?thesis
    by (auto simp add: quantile_label_def Let_def sh sd)
qed

lemma quantile_labels_nth:
  assumes "0 < N" and "0 \<le> k" and "k \<le> N"
  shows "quantile_labels ToString mem N = Some (map (quantile_label ToString mem N) [0..N])"
    and "length (map (quantile_label ToString mem N) [0..N]) = nat (N + 1)"
    and "map (quantile_label ToString mem N) [0..N] ! nat k = quantile_label ToString mem N k"
proof -
  show "quantile_labels ToString mem N = Some (map (quantile_label ToString mem N) [0..N])"
    using assms by (simp add: quantile_labels_def)
  show "length (map (quantile_label ToString mem N) [0..N]) = nat (N + 1)"
    by simp
  have "nat k < length [0..N]" using assms by simp
  moreover have "[0..N] ! nat k = 0 + int (nat k)"
    using assms by (intro nth_upto) simp
  ultimately show "map (quantile_label ToString mem N) [0..N] ! nat k
                     = quantile_label ToString mem N k"
    using assms by simp
qed

lemma Derive_label_column:
  assumes "quantile_labels ToString mem (NumberOfIntervals self) = Some labels"
    and "inMeta \<noteq> []" and "Derive ToString self mem inMeta = Derived meta'"
  shows "\<exists>cols. last meta' = (''Quantiles'',
           Some (Table ((''Quantile'', vtkStringArray labels) # cols)))"
proof -
  from assms(2) have "\<not> length inMeta < 1" by (cases inMeta) simp_all
  with assms(1,3) show ?thesis
    by (auto simp add: Derive_def split: prod.splits sum.splits)
qed

subsection \<open>Claim about the labels\<close>

text \<open>
  C8. Let \<open>0 \<le> k \<le> N\<close> (with \<open>4 * N\<close> inside the 32-bit \<open>int\<close> of the shift). \<open>Derive\<close>
  builds a label column of \<open>N + 1\<close> labels, which is the column \<open>Quantile\<close> of the table
  \<open>Quantiles\<close> that it appends as the last block. The label at position \<open>k\<close> is Minimum,
  First Quartile, Median, Third Quartile or Maximum exactly when \<open>4 * k\<close> divided by \<open>N\<close>
  leaves no remainder and has the quotient 0, 1, 2, 3 or 4, and it is the general label,
  the rendering of the double \<open>k * (1. / N)\<close> followed by \<open>-quantile\<close>, exactly when
  there is a remainder. For \<open>N = 4\<close> the five labels are the five names, and for \<open>N = 3\<close>
  they are Minimum, the general labels of 1/3 and 2/3, and Maximum.
\<close>

theorem quantile_label_cases:
  assumes "0 < N" and "N < 2 ^ 29" and "0 \<le> k" and "k \<le> N"
  shows "(\<exists>labels.
            quantile_labels ToString mem N = Some labels \<and> length labels = nat (N + 1) \<and>
            (\<forall>self inMeta meta'.
               NumberOfIntervals self = N \<and> inMeta \<noteq> [] \<and>
               Derive ToString self mem inMeta = Derived meta' \<longrightarrow>
               (\<exists>cols. last meta' = (''Quantiles'',
                  Some (Table ((''Quantile'', vtkStringArray labels) # cols))))) \<and>
            (labels ! nat k = ''Minimum'' \<longleftrightarrow>
               (4 * k) mod N = 0 \<and> (4 * k) div N = 0) \<and>
            (labels ! nat k = ''First Quartile'' \<longleftrightarrow>
               (4 * k) mod N = 0 \<and> (4 * k) div N = 1) \<and>
            (labels ! nat k = ''Median'' \<longleftrightarrow>
               (4 * k) mod N = 0 \<and> (4 * k) div N = 2) \<and>
            (labels ! nat k = ''Third Quartile'' \<longleftrightarrow>
               (4 * k) mod N = 0 \<and> (4 * k) div N = 3) \<and>
            (labels ! nat k = ''Maximum'' \<longleftrightarrow>
               (4 * k) mod N = 0 \<and> (4 * k) div N = 4) \<and>
            (labels ! nat k =
               ToString (VariantDouble
                 (dmul (rounding mem) (double_of_int (rounding mem) k)
                    (to_double (rounding mem) (1 / fl (rounding mem) (real_of_int N)))))
               @ ''-quantile'' \<longleftrightarrow>
               (4 * k) mod N \<noteq> 0)) \<and>
         quantile_labels ToString mem 4 =
            Some [''Minimum'', ''First Quartile'', ''Median'', ''Third Quartile'', ''Maximum''] \<and>
         quantile_labels ToString mem 3 =
            Some [''Minimum'',
                  ToString (VariantDouble
                    (dmul (rounding mem) (Finite 1) (to_double (rounding mem) (1 / 3))))
                  @ ''-quantile'',
                  ToString (VariantDouble
                    (dmul (rounding mem) (Finite 2) (to_double (rounding mem) (1 / 3))))
                  @ ''-quantile'',
                  ''Maximum'']"
proof -
  note u = quantile_label_unfold [OF assms, of ToString mem]
  note ns = general_label_not_special [of ToString mem N k]
  let ?labels = "map (quantile_label ToString mem N) [0..N]"
  note nth = quantile_labels_nth [OF assms(1,3,4), of ToString mem]
  from quot_range [OF assms(1,3,4)]
  have r: "(4 * k) div N \<in> {0, 1, 2, 3, 4}" by auto
  have g: "general_label ToString mem N k =
             ToString (VariantDouble
               (dmul (rounding mem) (double_of_int (rounding mem) k)
                  (to_double (rounding mem) (1 / fl (rounding mem) (real_of_int N)))))
             @ ''-quantile''"
    by (simp add: general_label_def label_fraction_def Let_def)
  have c0: "\<forall>self inMeta meta'.
               NumberOfIntervals self = N \<and> inMeta \<noteq> [] \<and>
               Derive ToString self mem inMeta = Derived meta' \<longrightarrow>
               (\<exists>cols. last meta' = (''Quantiles'',
                  Some (Table ((''Quantile'', vtkStringArray ?labels) # cols))))"
    using Derive_label_column [where ToString = ToString and mem = mem and labels = ?labels]
      nth(1) by blast
  have c1: "?labels ! nat k = ''Minimum'' \<longleftrightarrow>
              (4 * k) mod N = 0 \<and> (4 * k) div N = 0"
    unfolding nth(3) using r ns by (auto simp add: u)
  have c2: "?labels ! nat k = ''First Quartile'' \<longleftrightarrow>
              (4 * k) mod N = 0 \<and> (4 * k) div N = 1"
    unfolding nth(3) using r ns by (auto simp add: u)
  have c3: "?labels ! nat k = ''Median'' \<longleftrightarrow>
              (4 * k) mod N = 0 \<and> (4 * k) div N = 2"
    unfolding nth(3) using r ns by (auto simp add: u)
  have c4: "?labels ! nat k = ''Third Quartile'' \<longleftrightarrow>
              (4 * k) mod N = 0 \<and> (4 * k) div N = 3"
    unfolding nth(3) using r ns by (auto simp add: u)
  have c5: "?labels ! nat k = ''Maximum'' \<longleftrightarrow>
              (4 * k) mod N = 0 \<and> (4 * k) div N = 4"
    unfolding nth(3) using r ns by (auto simp add: u)
  have c6: "?labels ! nat k =
              ToString (VariantDouble
                (dmul (rounding mem) (double_of_int (rounding mem) k)
                   (to_double (rounding mem) (1 / fl (rounding mem) (real_of_int N)))))
              @ ''-quantile'' \<longleftrightarrow>
              (4 * k) mod N \<noteq> 0"
    unfolding nth(3) g [symmetric] using r ns by (auto simp add: u)
  have up4: "[0..4::int] = [0, 1, 2, 3, 4]" and up3: "[0..3::int] = [0, 1, 2, 3]"
    by (simp_all add: upto.simps)
  have n4: "quantile_labels ToString mem 4 =
            Some [''Minimum'', ''First Quartile'', ''Median'', ''Third Quartile'', ''Maximum'']"
    by (simp add: quantile_labels_def up4 quantile_label_def shift_left_2_def
        signed_divide_int_def signed_modulo_int_def)
  have n3: "quantile_labels ToString mem 3 =
            Some [''Minimum'',
                  ToString (VariantDouble
                    (dmul (rounding mem) (Finite 1) (to_double (rounding mem) (1 / 3))))
                  @ ''-quantile'',
                  ToString (VariantDouble
                    (dmul (rounding mem) (Finite 2) (to_double (rounding mem) (1 / 3))))
                  @ ''-quantile'',
                  ''Maximum'']"
    by (simp add: quantile_labels_def up3 quantile_label_def shift_left_2_def
        signed_divide_int_def signed_modulo_int_def general_label_def label_fraction_def
        double_of_int_exact fl_numeral)
  have "\<exists>labels.
            quantile_labels ToString mem N = Some labels \<and> length labels = nat (N + 1) \<and>
            (\<forall>self inMeta meta'.
               NumberOfIntervals self = N \<and> inMeta \<noteq> [] \<and>
               Derive ToString self mem inMeta = Derived meta' \<longrightarrow>
               (\<exists>cols. last meta' = (''Quantiles'',
                  Some (Table ((''Quantile'', vtkStringArray labels) # cols))))) \<and>
            (labels ! nat k = ''Minimum'' \<longleftrightarrow>
               (4 * k) mod N = 0 \<and> (4 * k) div N = 0) \<and>
            (labels ! nat k = ''First Quartile'' \<longleftrightarrow>
               (4 * k) mod N = 0 \<and> (4 * k) div N = 1) \<and>
            (labels ! nat k = ''Median'' \<longleftrightarrow>
               (4 * k) mod N = 0 \<and> (4 * k) div N = 2) \<and>
            (labels ! nat k = ''Third Quartile'' \<longleftrightarrow>
               (4 * k) mod N = 0 \<and> (4 * k) div N = 3) \<and>
            (labels ! nat k = ''Maximum'' \<longleftrightarrow>
               (4 * k) mod N = 0 \<and> (4 * k) div N = 4) \<and>
            (labels ! nat k =
               ToString (VariantDouble
                 (dmul (rounding mem) (double_of_int (rounding mem) k)
                    (to_double (rounding mem) (1 / fl (rounding mem) (real_of_int N)))))
               @ ''-quantile'' \<longleftrightarrow>
               (4 * k) mod N \<noteq> 0)"
    using nth(1,2) c0 c1 c2 c3 c4 c5 c6 by (intro exI [of _ ?labels] conjI)
  with n4 n3 show ?thesis by (intro conjI)
qed

theorem quantile_label_cases_witness:
  "(0::int) < 8 \<and> (8::int) < 2 ^ 29 \<and> (0::int) \<le> 4 \<and> (4::int) \<le> 8 \<and>
   (4 * 4) mod 8 = (0::int) \<and> (4 * 4) div 8 = (2::int) \<and> (4 * 3) mod 8 \<noteq> (0::int) \<and>
   quantile_labels decimal_ToString
     \<lparr>cdf_outside = (\<lambda>i. 0), double_outside = (\<lambda>i. Finite 0), string_outside = (\<lambda>i. []),
      variant_outside = (\<lambda>i. VariantInt 0), rounding = round_to_nearest\<rparr> 8
     = Some [''Minimum'', ''?-quantile'', ''First Quartile'', ''?-quantile'', ''Median'',
             ''?-quantile'', ''Third Quartile'', ''?-quantile'', ''Maximum''] \<and>
   [''Minimum'', ''?-quantile'', ''First Quartile'', ''?-quantile'', ''Median'',
    ''?-quantile'', ''Third Quartile'', ''?-quantile'', ''Maximum''] ! nat 4 = ''Median'' \<and>
   [''Minimum'', ''?-quantile'', ''First Quartile'', ''?-quantile'', ''Median'',
    ''?-quantile'', ''Third Quartile'', ''?-quantile'', ''Maximum''] ! nat 3 = ''?-quantile'' \<and>
   Derive decimal_ToString \<lparr>NumberOfIntervals = 8, QuantileDefinition = InverseCDF\<rparr>
     \<lparr>cdf_outside = (\<lambda>i. 0), double_outside = (\<lambda>i. Finite 0), string_outside = (\<lambda>i. []),
      variant_outside = (\<lambda>i. VariantInt 0), rounding = round_to_nearest\<rparr>
     [(''y'', Some (Table [(''Value'', vtkDoubleArray [NaN, Finite 8]),
                          (''Cardinality'', vtkIdTypeArray [- 1, 4])]))]
   = Derived
       [(''y'', Some (Table [(''Value'', vtkDoubleArray [NaN, Finite 8]),
                            (''Cardinality'', vtkIdTypeArray [4, 4]),
                            (''P'', vtkDoubleArray [Finite (- 1), Finite 1])])),
        (''Quantiles'', Some (Table
           [(''Quantile'', vtkStringArray
               [''Minimum'', ''?-quantile'', ''First Quartile'', ''?-quantile'', ''Median'',
                ''?-quantile'', ''Third Quartile'', ''?-quantile'', ''Maximum'']),
            (''y'', vtkDoubleArray [Finite 8, Finite 8, Finite 8, Finite 8, Finite 8,
               Finite 8, Finite 8, Finite 8, Finite 8])]))]"
  using quantile_label_cases [of 8 4 decimal_ToString
          "\<lparr>cdf_outside = (\<lambda>i. 0), double_outside = (\<lambda>i. Finite 0), string_outside = (\<lambda>i. []),
            variant_outside = (\<lambda>i. VariantInt 0), rounding = round_to_nearest\<rparr>"]
        quantile_label_cases [of 8 3 decimal_ToString
          "\<lparr>cdf_outside = (\<lambda>i. 0), double_outside = (\<lambda>i. Finite 0), string_outside = (\<lambda>i. []),
            variant_outside = (\<lambda>i. VariantInt 0), rounding = round_to_nearest\<rparr>"]
  by (simp add: derive_eval)
section \<open>Facts about the derive phase\<close>

subsection \<open>The rank cursor\<close>

lemma advance_rank_Inr:
  "advance_rank cdf nRowHist qIdx rank = Inr r \<Longrightarrow>
     rank \<le> r \<and> qIdx \<le> cdf r \<and> (\<forall>r'. rank \<le> r' \<and> r' < r \<longrightarrow> cdf r' < qIdx)"
proof (induction cdf nRowHist qIdx rank rule: advance_rank.induct)
  case (1 cdf nRowHist qIdx rank)
  show ?case
  proof (cases "qIdx > cdf rank")
    case False
    with "1.prems" have "r = rank" by (simp add: advance_rank.simps [of cdf nRowHist qIdx rank])
    with False show ?thesis by auto
  next
    case True
    show ?thesis
    proof (cases "rank + 1 > nRowHist")
      case over: True
      with True "1.prems" show ?thesis
        by (simp add: advance_rank.simps [of cdf nRowHist qIdx rank])
    next
      case False
      with True "1.prems" have "advance_rank cdf nRowHist qIdx (rank + 1) = Inr r"
        by (simp add: advance_rank.simps [of cdf nRowHist qIdx rank])
      with "1.IH" True False
      have ih: "rank + 1 \<le> r \<and> qIdx \<le> cdf r \<and> (\<forall>r'. rank + 1 \<le> r' \<and> r' < r \<longrightarrow> cdf r' < qIdx)"
        by simp
      have "\<forall>r'. rank \<le> r' \<and> r' < r \<longrightarrow> cdf r' < qIdx"
      proof (intro allI impI)
        fix r' assume a: "rank \<le> r' \<and> r' < r"
        show "cdf r' < qIdx"
        proof (cases "r' = rank")
          case True with \<open>qIdx > cdf rank\<close> show ?thesis by simp
        next
          case False with a ih show ?thesis by simp
        qed
      qed
      with ih show ?thesis by simp
    qed
  qed
qed

lemma advance_rank_in_bounds:
  "rank \<le> last_row \<Longrightarrow> last_row \<le> nRowHist \<Longrightarrow> qIdx \<le> cdf last_row \<Longrightarrow>
     \<exists>r. advance_rank cdf nRowHist qIdx rank = Inr r \<and> rank \<le> r \<and> r \<le> last_row"
proof (induction cdf nRowHist qIdx rank rule: advance_rank.induct)
  case (1 cdf nRowHist qIdx rank)
  show ?case
  proof (cases "qIdx > cdf rank")
    case False
    then have "advance_rank cdf nRowHist qIdx rank = Inr rank"
      by (simp add: advance_rank.simps [of cdf nRowHist qIdx rank])
    with "1.prems" show ?thesis by simp
  next
    case True
    with "1.prems" have "rank \<noteq> last_row" by auto
    with "1.prems" have lt: "rank + 1 \<le> last_row" by simp
    with "1.prems" have nover: "\<not> rank + 1 > nRowHist" by simp
    from "1.IH" [OF True nover lt] "1.prems"
    obtain r where r: "advance_rank cdf nRowHist qIdx (rank + 1) = Inr r"
      "rank + 1 \<le> r" "r \<le> last_row" by auto
    from True nover r(1) have "advance_rank cdf nRowHist qIdx rank = Inr r"
      by (simp add: advance_rank.simps [of cdf nRowHist qIdx rank])
    with r show ?thesis by simp
  qed
qed

subsection \<open>Chains of ranks\<close>

lemma rank_chain_set:
  "rank_chain lo hi ps \<Longrightarrow> (c, d) \<in> set ps \<Longrightarrow> lo \<le> c \<and> c \<le> d \<and> d \<le> hi"
proof (induction ps arbitrary: lo)
  case Nil
  then show ?case by simp
next
  case (Cons p ps)
  obtain a b where p: "p = (a, b)" by (cases p)
  from Cons.prems(1) p have h: "lo \<le> a" "a \<le> b" "b \<le> hi" "rank_chain b hi ps" by auto
  show ?case
  proof (cases "(c, d) = p")
    case True
    with p h show ?thesis by auto
  next
    case False
    with Cons.prems(2) have "(c, d) \<in> set ps" by auto
    from Cons.IH [OF h(4) this] h show ?thesis by auto
  qed
qed

lemma rank_chain_append_last:
  "rank_chain lo hi ps \<Longrightarrow> lo \<le> hi \<Longrightarrow> rank_chain lo hi (ps @ [(hi, hi)])"
proof (induction ps arbitrary: lo)
  case Nil
  then show ?case by simp
next
  case (Cons p ps)
  obtain a b where p: "p = (a, b)" by (cases p)
  with Cons show ?case by auto
qed

lemma rank_chain_sorted:
  assumes mono: "\<And>a b c d. lo0 \<le> a \<Longrightarrow> a \<le> b \<Longrightarrow> b \<le> c \<Longrightarrow> c \<le> d \<Longrightarrow> d \<le> hi
                   \<Longrightarrow> R (g (a, b)) (g (c, d))"
  shows "rank_chain lo hi ps \<Longrightarrow> lo0 \<le> lo \<Longrightarrow> sorted_wrt R (map g ps)"
proof (induction ps arbitrary: lo)
  case Nil
  then show ?case by simp
next
  case (Cons p ps)
  obtain a b where p: "p = (a, b)" by (cases p)
  from Cons.prems p have h: "lo \<le> a" "a \<le> b" "b \<le> hi" "rank_chain b hi ps" by auto
  have tail: "sorted_wrt R (map g ps)"
    using Cons.IH [OF h(4)] Cons.prems(2) h by simp
  have "\<forall>q \<in> set ps. R (g (a, b)) (g q)"
  proof
    fix q assume q: "q \<in> set ps"
    obtain c d where cd: "q = (c, d)" by (cases q)
    from rank_chain_set [OF h(4)] q cd have "b \<le> c" "c \<le> d" "d \<le> hi" by auto
    with mono [of a b c d] h Cons.prems(2) cd show "R (g (a, b)) (g q)" by simp
  qed
  with tail p show ?case by simp
qed

subsection \<open>The interior quantiles of a histogram with observations\<close>

lemma interior_quantiles_in_bounds:
  assumes bound: "last_row \<le> nRowHist"
  shows "rank \<le> last_row \<Longrightarrow>
         \<forall>k \<in> set ks. first_quantile_index qd (np_double rnd k dh) \<le> cdf last_row \<and>
                       second_quantile_index rnd (np_double rnd k dh) \<le> cdf last_row \<Longrightarrow>
         \<exists>pairs. interior_quantiles qd rnd cdf nRowHist dh ks rank = Inr pairs \<and>
                 length pairs = length ks \<and> rank_chain rank last_row pairs"
proof (induction ks arbitrary: rank)
  case Nil
  then show ?case by simp
next
  case (Cons k ks)
  let ?np = "np_double rnd k dh"
  let ?q1 = "first_quantile_index qd ?np"
  let ?q2 = "second_quantile_index rnd ?np"
  from Cons.prems(2) have q1: "?q1 \<le> cdf last_row" and q2: "?q2 \<le> cdf last_row" by auto
  from advance_rank_in_bounds [where cdf = cdf and qIdx = ?q1 and rank = rank
      and last_row = last_row and nRowHist = nRowHist] Cons.prems(1) bound q1
  obtain rank1 where r1: "advance_rank cdf nRowHist ?q1 rank = Inr rank1"
    "rank \<le> rank1" "rank1 \<le> last_row" by auto
  let ?second = "if qd = InverseCDFAveragedSteps
                 then (let qIdx2 = ?q2
                       in if ?q1 \<noteq> qIdx2 then advance_rank cdf nRowHist qIdx2 rank1
                          else Inr rank1)
                 else Inr rank1"
  have "\<exists>rank2. ?second = Inr rank2 \<and> rank1 \<le> rank2 \<and> rank2 \<le> last_row"
  proof (cases "qd = InverseCDFAveragedSteps \<and> ?q1 \<noteq> ?q2")
    case True
    from advance_rank_in_bounds [where cdf = cdf and qIdx = ?q2 and rank = rank1
        and last_row = last_row and nRowHist = nRowHist] r1(3) bound q2
    obtain rank2 where "advance_rank cdf nRowHist ?q2 rank1 = Inr rank2"
      "rank1 \<le> rank2" "rank2 \<le> last_row" by auto
    with True show ?thesis by (simp add: Let_def)
  next
    case False
    with r1 show ?thesis by (auto simp add: Let_def)
  qed
  then obtain rank2 where r2: "?second = Inr rank2" "rank1 \<le> rank2" "rank2 \<le> last_row"
    by blast
  from Cons.IH [OF r2(3)] Cons.prems(2)
  obtain pairs where ps: "interior_quantiles qd rnd cdf nRowHist dh ks rank2 = Inr pairs"
    "length pairs = length ks" "rank_chain rank2 last_row pairs" by auto
  have "interior_quantiles qd rnd cdf nRowHist dh (k # ks) rank = Inr ((rank1, rank2) # pairs)"
    using r1(1) r2(1) ps(1) by (simp add: Let_def)
  moreover have "rank_chain rank last_row ((rank1, rank2) # pairs)"
    using r1 r2 ps(3) by simp
  ultimately show ?case using ps(2) by simp
qed

lemma cdf_at_last_row:
  assumes "2 \<le> length cards"
  shows "cdf_at beyond cards (int (length cards) - 1) = sum_list (tl cards)"
proof -
  have "nat (int (length cards) - 1) = length (tl cards)" by simp
  then have "take (nat (int (length cards) - 1)) (tl cards) = tl cards"
    by (simp only: take_all)
  with assms show ?thesis by (simp add: cdf_at_def)
qed

lemma quantile_indices_in_bounds:
  assumes E: "\<And>x. 1 / 2 ^ 1022 \<le> \<bar>x\<bar> \<Longrightarrow> \<bar>fl (rounding mem) x - x\<bar> \<le> \<bar>x\<bar> / 2 ^ 52"
    and len: "2 \<le> length cards" and pos: "0 < sum_list (tl cards)"
    and N: "1 \<le> NumberOfIntervals self" "NumberOfIntervals self < 2 ^ 31"
  shows "\<exists>idx. quantile_indices self mem cards = Inr idx \<and>
               int (length idx) = NumberOfIntervals self + 1 \<and>
               rank_chain 1 (int (length cards) - 1) idx"
proof -
  let ?last = "int (length cards) - 1"
  let ?n = "sum_list (tl cards)"
  let ?N = "NumberOfIntervals self"
  let ?rnd = "rounding mem"
  let ?cdf = "cdf_at (cdf_outside mem) cards"
  let ?dh = "dh_double ?rnd ?n ?N"
  have one: "1 \<le> ?last" using len by simp
  have bound: "?last \<le> int (length cards)" by simp
  have "\<forall>k \<in> set [1..?N - 1].
          first_quantile_index (QuantileDefinition self) (np_double ?rnd k ?dh) \<le> ?cdf ?last \<and>
          second_quantile_index ?rnd (np_double ?rnd k ?dh) \<le> ?cdf ?last"
  proof
    fix k assume "k \<in> set [1..?N - 1]"
    then have k: "1 \<le> k" "k < ?N" by auto
    from quantile_index_le_cardinality [where rnd = ?rnd, OF E pos k N(2)]
    show "first_quantile_index (QuantileDefinition self) (np_double ?rnd k ?dh) \<le> ?cdf ?last \<and>
          second_quantile_index ?rnd (np_double ?rnd k ?dh) \<le> ?cdf ?last"
      by (simp add: cdf_at_last_row [OF len])
  qed
  from interior_quantiles_in_bounds [where cdf = ?cdf and last_row = ?last
      and nRowHist = "int (length cards)" and rank = 1 and ks = "[1..?N - 1]"
      and qd = "QuantileDefinition self" and dh = ?dh and rnd = ?rnd] bound one this
  obtain pairs where ps:
    "interior_quantiles (QuantileDefinition self) ?rnd ?cdf (int (length cards)) ?dh
       [1..?N - 1] 1 = Inr pairs"
    "length pairs = length [1..?N - 1]" "rank_chain 1 ?last pairs" by blast
  have "quantile_indices self mem cards = Inr ((1, 1) # pairs @ [(?last, ?last)])"
    using ps(1) by (simp add: quantile_indices_def Let_def)
  moreover have "int (length ((1, 1) # pairs @ [(?last, ?last)])) = ?N + 1"
    using ps(2) N by simp
  moreover have "rank_chain 1 ?last ((1, 1) # pairs @ [(?last, ?last)])"
    using rank_chain_append_last [OF ps(3) one] one by simp
  ultimately show ?thesis by blast
qed

lemma read_at_sorted_tail:
  assumes srt: "sorted_wrt double_le (tl dvals)" and nn: "NaN \<notin> set (tl dvals)"
    and a: "1 \<le> a" "a \<le> c" "c \<le> int (length dvals) - 1"
  shows "double_le (read_at beyond dvals a) (read_at beyond dvals c)"
proof -
  let ?i = "nat a - 1" and ?j = "nat c - 1"
  have ij: "?i \<le> ?j" "?j < length (tl dvals)" using a by auto
  have "double_le (tl dvals ! ?i) (tl dvals ! ?j)"
  proof (cases "?i = ?j")
    case True
    from ij have "tl dvals ! ?j \<in> set (tl dvals)" by (intro nth_mem)
    with nn have "tl dvals ! ?j \<noteq> NaN" by auto
    with True show ?thesis by (simp add: double_le_refl)
  next
    case False
    with ij have "?i < ?j" by simp
    from sorted_wrt_nth_less [OF srt this ij(2)] show ?thesis .
  qed
  moreover have "tl dvals ! ?i = dvals ! nat a" using a ij by (simp add: nth_tl)
  moreover have "tl dvals ! ?j = dvals ! nat c" using a ij by (simp add: nth_tl)
  ultimately show ?thesis using a by (simp add: read_at_def)
qed

lemma read_at_in_tail:
  assumes a: "1 \<le> a" "a \<le> int (length dvals) - 1"
  shows "read_at beyond dvals a \<in> set (tl dvals)"
proof -
  have "nat a - 1 < length (tl dvals)" using a by auto
  then have m: "tl dvals ! (nat a - 1) \<in> set (tl dvals)" by (intro nth_mem)
  have e: "tl dvals ! (nat a - 1) = dvals ! nat a" using a by (simp add: nth_tl)
  have "read_at beyond dvals a = dvals ! nat a" using a by (simp add: read_at_def)
  with m e show ?thesis by simp
qed
lemma derive_table_unfold:
  assumes "GetColumnByName histogramTab ''Value'' = Some vals"
    and "GetColumnByName histogramTab ''Cardinality'' = Some (vtkIdTypeArray cards)"
    and "GetColumnByName histogramTab ''P'' = None \<or>
         (\<exists>ps. GetColumnByName histogramTab ''P'' = Some (vtkDoubleArray ps))"
    and "cards \<noteq> []"
  shows "derive_table self mem histogramTab =
           (store_derived mem histogramTab cards,
            case quantile_indices self mem cards of
              Inl e \<Rightarrow> Inl e
            | Inr quantileIndices \<Rightarrow> quantile_column self mem vals quantileIndices)"
  using assms
  by (auto simp add: derive_table_def Let_def split: sum.splits)

subsection \<open>Claim about the order of the quantiles\<close>

text \<open>
  The midpoint of two large doubles overflows, because the sum is rounded before it is
  halved: the midpoint of \<open>2 ^ 1023\<close> and itself is the infinity.
\<close>

lemma averaged_step_overflow:
  "averaged_step rnd (Finite (2 ^ 1023)) (Finite (2 ^ 1023)) = PlusInfinity"
proof -
  have "is_double (real_of_int 1 * 2 powi 1024)"
    unfolding is_double_def by (intro exI [of _ 1] exI [of _ 1024]) simp
  then have "is_double (2 ^ 1024)" by simp
  then have "fl rnd (2 ^ 1024) = 2 ^ 1024" by (rule fl_exact)
  moreover have "(2 ^ 1023 + 2 ^ 1023 :: real) = 2 ^ 1024" by simp
  ultimately have "to_double rnd (2 ^ 1023 + 2 ^ 1023) = PlusInfinity"
    by (simp only: to_double_def Let_def) simp
  then show ?thesis by (simp add: averaged_step_def)
qed

text \<open>
  C9 (as the code has it). Take the histogram table of a numeric column: a \<open>Value\<close>
  column of doubles that ascends after the cardinality row, a \<open>Cardinality\<close> column of
  the same size, at least one row after the cardinality row, and a positive total \<open>n\<close>
  of the counts (as when every count is positive, which is what the learn phase stores);
  the CDF then reaches \<open>n\<close> at the last row. Let no value be NaN and, under
  \<open>InverseCDFAveragedSteps\<close>, let the values not hold both infinities. For every
  \<open>NumberOfIntervals\<close> from 1 on (an \<open>int\<close>, so below \<open>2 ^ 31\<close>) and for both quantile
  definitions, \<open>Derive\<close> gives this table a quantile column of \<open>NumberOfIntervals + 1\<close>
  doubles that is non-decreasing under the comparison \<open><=\<close> of doubles, whatever lies
  outside the arrays, for every rounding that is monotone and has a relative error of at
  most \<open>1 / 2 ^ 52\<close> on the normal doubles, as the rounding to nearest is and has. A
  midpoint that overflows is an infinity, which keeps the order.
\<close>

theorem Derive_quantiles_nondecreasing:
  assumes vals: "GetColumnByName histogramTab ''Value'' = Some (vtkDoubleArray dvals)"
    and cards: "GetColumnByName histogramTab ''Cardinality'' = Some (vtkIdTypeArray cards)"
    and P: "GetColumnByName histogramTab ''P'' = None \<or>
            (\<exists>ps. GetColumnByName histogramTab ''P'' = Some (vtkDoubleArray ps))"
    and len: "length dvals = length cards" "2 \<le> length cards"
    and srt: "sorted_wrt double_le (tl dvals)"
    and nan: "NaN \<notin> set (tl dvals)"
    and inf: "QuantileDefinition self = InverseCDFAveragedSteps \<longrightarrow>
              \<not> (MinusInfinity \<in> set (tl dvals) \<and> PlusInfinity \<in> set (tl dvals))"
    and pos: "0 < sum_list (tl cards)"
    and N: "1 \<le> NumberOfIntervals self" "NumberOfIntervals self < 2 ^ 31"
    and mono: "\<And>x y. x \<le> y \<Longrightarrow> fl (rounding mem) x \<le> fl (rounding mem) y"
    and err: "\<And>x. 1 / 2 ^ 1022 \<le> \<bar>x\<bar> \<Longrightarrow> \<bar>fl (rounding mem) x - x\<bar> \<le> \<bar>x\<bar> / 2 ^ 52"
  shows "\<exists>tab' qs. derive_table self mem histogramTab = (tab', Inr (Some (vtkDoubleArray qs))) \<and>
                   int (length qs) = NumberOfIntervals self + 1 \<and> sorted_wrt double_le qs"
proof -
  let ?last = "int (length cards) - 1"
  let ?f = "read_at (double_outside mem) dvals"
  let ?rnd = "rounding mem"
  from len have ne: "cards \<noteq> []" by auto
  from quantile_indices_in_bounds [OF err len(2) pos N]
  obtain idx where idx: "quantile_indices self mem cards = Inr idx"
    "int (length idx) = NumberOfIntervals self + 1" "rank_chain 1 ?last idx" by blast
  have f_mono: "\<And>a c. 1 \<le> a \<Longrightarrow> a \<le> c \<Longrightarrow> c \<le> ?last \<Longrightarrow> double_le (?f a) (?f c)"
    using read_at_sorted_tail [OF srt nan] len(1) by simp
  have f_in: "\<And>a. 1 \<le> a \<Longrightarrow> a \<le> ?last \<Longrightarrow> ?f a \<in> set (tl dvals)"
    using read_at_in_tail [of _ dvals] len(1) by simp
  let ?avg = "\<lambda>(first, second). averaged_step ?rnd (?f first) (?f second)"
  let ?fst = "\<lambda>(first, second :: int). ?f first"
  have s_avg: "sorted_wrt double_le (map ?avg idx)"
    if avg: "QuantileDefinition self = InverseCDFAveragedSteps"
  proof (rule rank_chain_sorted [where lo0 = 1 and lo = 1 and hi = ?last])
    fix a b c d :: int
    assume o: "1 \<le> a" "a \<le> b" "b \<le> c" "c \<le> d" "d \<le> ?last"
    then have le: "double_le (?f a) (?f c)" "double_le (?f b) (?f d)"
      by (auto intro: f_mono)
    from o have "?f a \<in> set (tl dvals)" "?f b \<in> set (tl dvals)"
      "?f c \<in> set (tl dvals)" "?f d \<in> set (tl dvals)"
      by (auto intro: f_in)
    with inf avg
    have "\<not> (MinusInfinity \<in> {?f a, ?f b, ?f c, ?f d} \<and> PlusInfinity \<in> {?f a, ?f b, ?f c, ?f d})"
      by auto
    from averaged_step_mono [where rnd = ?rnd, OF mono le this]
    show "double_le (?avg (a, b)) (?avg (c, d))" by simp
  qed (use idx(3) in simp_all)
  have s_fst: "sorted_wrt double_le (map ?fst idx)"
  proof (rule rank_chain_sorted [where lo0 = 1 and lo = 1 and hi = ?last])
    fix a b c d :: int
    assume o: "1 \<le> a" "a \<le> b" "b \<le> c" "c \<le> d" "d \<le> ?last"
    then have "double_le (?f a) (?f c)" by (auto intro: f_mono)
    then show "double_le (?fst (a, b)) (?fst (c, d))" by simp
  qed (use idx(3) in simp_all)
  let ?qs = "if QuantileDefinition self = InverseCDFAveragedSteps
             then map ?avg idx else map ?fst idx"
  have col: "quantile_column self mem (vtkDoubleArray dvals) idx = Inr (Some (vtkDoubleArray ?qs))"
    using idx(2) by (simp add: quantile_column_def)
  have "derive_table self mem histogramTab =
          (store_derived mem histogramTab cards, Inr (Some (vtkDoubleArray ?qs)))"
    using derive_table_unfold [OF vals cards P ne, of self mem] idx(1) col by simp
  moreover have "int (length ?qs) = NumberOfIntervals self + 1" using idx(2) by simp
  moreover have "sorted_wrt double_le ?qs" using s_avg s_fst by simp
  ultimately show ?thesis by blast
qed

theorem Derive_quantiles_nondecreasing_witness:
  "histogram_table
     \<lparr>cdf_outside = (\<lambda>i. 0), double_outside = (\<lambda>i. Finite 0), string_outside = (\<lambda>i. []),
      variant_outside = (\<lambda>i. VariantInt 0), rounding = round_to_nearest\<rparr> (\<lambda>v w. False)
     (vtkDoubleArray [Finite 1, Finite 2, Finite 2, Finite 3, Finite 4, Finite 5, Finite 5,
        Finite 5, Finite 6, Finite 7]) 10
     = Some [(''Value'', vtkDoubleArray [NaN, Finite 1, Finite 2, Finite 3, Finite 4, Finite 5,
                Finite 6, Finite 7]),
             (''Cardinality'', vtkIdTypeArray [- 1, 1, 2, 1, 1, 3, 1, 1])] \<and>
   sorted_wrt double_le
     (tl [NaN, Finite 1, Finite 2, Finite 3, Finite 4, Finite 5, Finite 6, Finite 7]) \<and>
   0 < sum_list (tl [- 1, 1, 2, 1, 1, 3, 1, 1 :: int]) \<and>
   snd (derive_table \<lparr>NumberOfIntervals = 4, QuantileDefinition = InverseCDF\<rparr>
          \<lparr>cdf_outside = (\<lambda>i. 0), double_outside = (\<lambda>i. Finite 0), string_outside = (\<lambda>i. []),
           variant_outside = (\<lambda>i. VariantInt 0), rounding = round_to_nearest\<rparr>
          [(''Value'', vtkDoubleArray [NaN, Finite 1, Finite 2, Finite 3, Finite 4, Finite 5,
              Finite 6, Finite 7]),
           (''Cardinality'', vtkIdTypeArray [- 1, 1, 2, 1, 1, 3, 1, 1])])
     = Inr (Some (vtkDoubleArray [Finite 1, Finite 2, Finite 4, Finite 5, Finite 7])) \<and>
   snd (derive_table \<lparr>NumberOfIntervals = 4, QuantileDefinition = InverseCDFAveragedSteps\<rparr>
          \<lparr>cdf_outside = (\<lambda>i. 0), double_outside = (\<lambda>i. Finite 0), string_outside = (\<lambda>i. []),
           variant_outside = (\<lambda>i. VariantInt 0), rounding = round_to_nearest\<rparr>
          [(''Value'', vtkDoubleArray [NaN, Finite 1, Finite 2, Finite 3, Finite 4, Finite 5,
              Finite 6, Finite 7]),
           (''Cardinality'', vtkIdTypeArray [- 1, 1, 2, 1, 1, 3, 1, 1])])
     = Inr (Some (vtkDoubleArray [Finite 1, Finite 2, Finite (9 / 2), Finite 5, Finite 7])) \<and>
   sorted_wrt double_le [Finite 1, Finite 2, Finite 4, Finite 5, Finite 7] \<and>
   sorted_wrt double_le [Finite 1, Finite 2, Finite (9 / 2), Finite 5, Finite 7]"
  using Derive_quantiles_nondecreasing
    [of "[(''Value'', vtkDoubleArray [NaN, Finite 1, Finite 2, Finite 3, Finite 4, Finite 5,
              Finite 6, Finite 7]),
          (''Cardinality'', vtkIdTypeArray [- 1, 1, 2, 1, 1, 3, 1, 1])]"
        "[NaN, Finite 1, Finite 2, Finite 3, Finite 4, Finite 5, Finite 6, Finite 7]"
        "[- 1, 1, 2, 1, 1, 3, 1, 1]"
        "\<lparr>NumberOfIntervals = 4, QuantileDefinition = InverseCDF\<rparr>"
        "\<lparr>cdf_outside = (\<lambda>i. 0), double_outside = (\<lambda>i. Finite 0), string_outside = (\<lambda>i. []),
           variant_outside = (\<lambda>i. VariantInt 0), rounding = round_to_nearest\<rparr>"]
    Derive_quantiles_nondecreasing
    [of "[(''Value'', vtkDoubleArray [NaN, Finite 1, Finite 2, Finite 3, Finite 4, Finite 5,
              Finite 6, Finite 7]),
          (''Cardinality'', vtkIdTypeArray [- 1, 1, 2, 1, 1, 3, 1, 1])]"
        "[NaN, Finite 1, Finite 2, Finite 3, Finite 4, Finite 5, Finite 6, Finite 7]"
        "[- 1, 1, 2, 1, 1, 3, 1, 1]"
        "\<lparr>NumberOfIntervals = 4, QuantileDefinition = InverseCDFAveragedSteps\<rparr>"
        "\<lparr>cdf_outside = (\<lambda>i. 0), double_outside = (\<lambda>i. Finite 0), string_outside = (\<lambda>i. []),
           variant_outside = (\<lambda>i. VariantInt 0), rounding = round_to_nearest\<rparr>"]
  by (simp add: derive_eval histogram_table_def calculate_histogram_def
      fl_round_to_nearest_mono fl_round_to_nearest_error)

text \<open>
  C9 as stated fails on the column that holds the two infinities, once each, under
  \<open>InverseCDFAveragedSteps\<close> with \<open>NumberOfIntervals = 4\<close>: the median is the midpoint of
  the two infinities, which is NaN, and NaN is neither at least the quantile before it
  nor at most the quantile after it. It also fails on a column whose only value is NaN
  (under either definition): every quantile is NaN. Both histogram tables are those that
  the learn phase builds from the column.
\<close>

theorem Derive_quantiles_nondecreasing_counterexample:
  "histogram_table
     \<lparr>cdf_outside = (\<lambda>i. 0), double_outside = (\<lambda>i. Finite 0), string_outside = (\<lambda>i. []),
      variant_outside = (\<lambda>i. VariantInt 0), rounding = round_to_nearest\<rparr> (\<lambda>v w. False)
     (vtkDoubleArray [PlusInfinity, MinusInfinity]) 2
     = Some [(''Value'', vtkDoubleArray [NaN, MinusInfinity, PlusInfinity]),
             (''Cardinality'', vtkIdTypeArray [- 1, 1, 1])] \<and>
   snd (derive_table \<lparr>NumberOfIntervals = 4, QuantileDefinition = InverseCDFAveragedSteps\<rparr>
          \<lparr>cdf_outside = (\<lambda>i. 0), double_outside = (\<lambda>i. Finite 0), string_outside = (\<lambda>i. []),
           variant_outside = (\<lambda>i. VariantInt 0), rounding = round_to_nearest\<rparr>
          [(''Value'', vtkDoubleArray [NaN, MinusInfinity, PlusInfinity]),
           (''Cardinality'', vtkIdTypeArray [- 1, 1, 1])])
     = Inr (Some (vtkDoubleArray [MinusInfinity, MinusInfinity, NaN, PlusInfinity, PlusInfinity])) \<and>
   \<not> sorted_wrt double_le [MinusInfinity, MinusInfinity, NaN, PlusInfinity, PlusInfinity] \<and>
   histogram_table
     \<lparr>cdf_outside = (\<lambda>i. 0), double_outside = (\<lambda>i. Finite 0), string_outside = (\<lambda>i. []),
      variant_outside = (\<lambda>i. VariantInt 0), rounding = round_to_nearest\<rparr> (\<lambda>v w. False)
     (vtkDoubleArray [NaN]) 1
     = Some [(''Value'', vtkDoubleArray [NaN, NaN]),
             (''Cardinality'', vtkIdTypeArray [- 1, 1])] \<and>
   snd (derive_table \<lparr>NumberOfIntervals = 1, QuantileDefinition = InverseCDF\<rparr>
          \<lparr>cdf_outside = (\<lambda>i. 0), double_outside = (\<lambda>i. Finite 0), string_outside = (\<lambda>i. []),
           variant_outside = (\<lambda>i. VariantInt 0), rounding = round_to_nearest\<rparr>
          [(''Value'', vtkDoubleArray [NaN, NaN]),
           (''Cardinality'', vtkIdTypeArray [- 1, 1])])
     = Inr (Some (vtkDoubleArray [NaN, NaN])) \<and>
   \<not> sorted_wrt double_le [NaN, NaN]"
  by (simp add: derive_eval histogram_table_def calculate_histogram_def)

subsection \<open>Claim about the first quantile index\<close>

lemma interior_quantiles_first_rank:
  assumes "interior_quantiles qd rnd cdf nRowHist dh (k # ks) rank = Inr ((rank1, rank2) # pairs)"
  shows "advance_rank cdf nRowHist (first_quantile_index qd (np_double rnd k dh)) rank = Inr rank1"
  using assms by (simp add: Let_def split: sum.splits)

text \<open>
  C2 (as the code has it). For the interior quantile \<open>k\<close> the target \<open>np\<close> is the double
  that the code computes as \<open>k * dh\<close> with \<open>dh = n / N\<close>, the quotient and the product
  each rounded, whatever the rounding. The first quantile index is \<open>ceil(np)\<close> under
  \<open>InverseCDF\<close> and \<open>round(np)\<close> under \<open>InverseCDFAveragedSteps\<close>; and whenever the loop
  body for \<open>k\<close> stores a pair of ranks, the first rank of the pair is the first rank,
  from the cursor on, whose CDF reaches that index.
\<close>

theorem Derive_first_quantile_index:
  assumes "interior_quantiles qd rnd cdf nRowHist (dh_double rnd n N) (k # ks) rank
             = Inr ((rank1, rank2) # pairs)"
  shows "let np = np_double rnd k (dh_double rnd n N);
             qIdx1 = (case qd of InverseCDF \<Rightarrow> \<lceil>np\<rceil> | InverseCDFAveragedSteps \<Rightarrow> c_round np)
         in np = fl rnd (fl rnd (real_of_int k)
                   * fl rnd (fl rnd (real_of_int n) / fl rnd (real_of_int N))) \<and>
            first_quantile_index qd np = qIdx1 \<and>
            rank \<le> rank1 \<and> qIdx1 \<le> cdf rank1 \<and>
            (\<forall>r. rank \<le> r \<and> r < rank1 \<longrightarrow> cdf r < qIdx1)"
proof -
  let ?np = "np_double rnd k (dh_double rnd n N)"
  have np: "?np = fl rnd (fl rnd (real_of_int k)
                   * fl rnd (fl rnd (real_of_int n) / fl rnd (real_of_int N)))"
    by (simp add: np_double_def dh_double_def)
  have eq: "first_quantile_index qd ?np =
              (case qd of InverseCDF \<Rightarrow> \<lceil>?np\<rceil> | InverseCDFAveragedSteps \<Rightarrow> c_round ?np)"
    by (cases qd) (simp_all add: first_quantile_index_def)
  from advance_rank_Inr [OF interior_quantiles_first_rank [OF assms]]
  have "rank \<le> rank1 \<and> first_quantile_index qd ?np \<le> cdf rank1 \<and>
        (\<forall>r. rank \<le> r \<and> r < rank1 \<longrightarrow> cdf r < first_quantile_index qd ?np)" .
  with eq np show ?thesis unfolding Let_def by metis
qed

theorem Derive_first_quantile_index_witness:
  "interior_quantiles InverseCDF round_to_nearest (cdf_at (\<lambda>i. 0) [- 1, 4, 3, 2]) 4
     (dh_double round_to_nearest 9 4) [1, 2, 3] 1 = Inr [(1, 1), (2, 2), (2, 2)] \<and>
   np_double round_to_nearest 1 (dh_double round_to_nearest 9 4) = 9 / 4 \<and>
   first_quantile_index InverseCDF (np_double round_to_nearest 1 (dh_double round_to_nearest 9 4)) = 3 \<and>
   interior_quantiles InverseCDFAveragedSteps round_to_nearest (cdf_at (\<lambda>i. 0) [- 1, 4, 3, 2]) 4
     (dh_double round_to_nearest 9 4) [1, 2, 3] 1 = Inr [(1, 1), (2, 2), (2, 2)] \<and>
   first_quantile_index InverseCDFAveragedSteps
     (np_double round_to_nearest 1 (dh_double round_to_nearest 9 4)) = 2"
  using Derive_first_quantile_index [of InverseCDF round_to_nearest "cdf_at (\<lambda>i. 0) [- 1, 4, 3, 2]" 4 9 4 1
          "[2, 3]" 1 1 1 "[(2, 2), (2, 2)]"]
        Derive_first_quantile_index [of InverseCDFAveragedSteps round_to_nearest
          "cdf_at (\<lambda>i. 0) [- 1, 4, 3, 2]" 4 9 4 1 "[2, 3]" 1 1 1 "[(2, 2), (2, 2)]"]
  by (simp add: Let_def first_quantile_index_def second_quantile_index_def dh_double_def
      np_double_def derive_eval cdf_at_def advance_rank.simps c_round_def)

text \<open>
  C2 as stated has the two definitions exchanged. For \<open>n = 9\<close>, \<open>N = 4\<close>, \<open>k = 1\<close>
  (\<open>np = 2.25\<close>, a double, so that nothing is rounded) the index under \<open>InverseCDF\<close> is
  3, not \<open>round(np) = 2\<close>, and under \<open>InverseCDFAveragedSteps\<close> it is 2, not
  \<open>ceil(np) = 3\<close>.
\<close>

theorem Derive_first_quantile_index_counterexample:
  "np_double round_to_nearest 1 (dh_double round_to_nearest 9 4) = 9 / 4 \<and>
   first_quantile_index InverseCDF (np_double round_to_nearest 1 (dh_double round_to_nearest 9 4)) = 3 \<and>
   c_round (np_double round_to_nearest 1 (dh_double round_to_nearest 9 4)) = 2 \<and>
   first_quantile_index InverseCDFAveragedSteps
     (np_double round_to_nearest 1 (dh_double round_to_nearest 9 4)) = 2 \<and>
   \<lceil>np_double round_to_nearest 1 (dh_double round_to_nearest 9 4)\<rceil> = 3"
  by (simp add: first_quantile_index_def c_round_def dh_double_def np_double_def derive_eval)

text \<open>
  Where the quotient and the product are rounded, the index is taken from the rounded
  target, under the rounding to nearest as follows. For \<open>n = 58\<close>, \<open>N = 14\<close>, \<open>k = 7\<close>
  the product of 7 and the double nearest to \<open>58 / 14\<close> rounds to the double above 29,
  and the index under \<open>InverseCDF\<close> is 30 (in exact arithmetic \<open>np\<close> would be 29). For
  \<open>n = 15\<close>, \<open>N = 22\<close>, \<open>k = 11\<close> the target is the double below 7.5, and the index
  under \<open>InverseCDFAveragedSteps\<close> is 7 (in exact arithmetic it would be 8).
\<close>

lemma dh_58_14: "dh_double round_to_nearest 58 14 = 4664442471205157 / 2 ^ 50"
proof -
  have "round_to_nearest (29 / 7) = real_of_int 4664442471205157 * 2 powi (2 - 52)"
    by (rule round_to_nearest_eval) simp_all
  then show ?thesis
    by (simp add: dh_double_def fl_round_to_nearest round_to_nearest_numeral
        power_int_minus field_simps)
qed

lemma np_58_14_7:
  "np_double round_to_nearest 7 (dh_double round_to_nearest 58 14) = 29 + 1 / 2 ^ 48"
proof -
  have "round_to_nearest (32651097298436099 / 2 ^ 50)
          = real_of_int 8162774324609025 * 2 powi (4 - 52)"
    by (rule round_to_nearest_eval) simp_all
  then show ?thesis
    by (simp add: np_double_def dh_58_14 fl_round_to_nearest round_to_nearest_numeral
        power_int_minus field_simps)
qed

lemma dh_15_22: "dh_double round_to_nearest 15 22 = 6141272219141585 / 2 ^ 53"
proof -
  have "round_to_nearest (15 / 22) = real_of_int 6141272219141585 * 2 powi (- 1 - 52)"
    by (rule round_to_nearest_eval) simp_all
  then show ?thesis
    by (simp add: dh_double_def fl_round_to_nearest round_to_nearest_numeral
        power_int_minus field_simps)
qed

lemma np_15_22_11:
  "np_double round_to_nearest 11 (dh_double round_to_nearest 15 22) = 15 / 2 - 1 / 2 ^ 50"
proof -
  have "round_to_nearest (67553994410557435 / 2 ^ 53)
          = real_of_int 8444249301319679 * 2 powi (2 - 52)"
    by (rule round_to_nearest_eval) simp_all
  then show ?thesis
    by (simp add: np_double_def dh_15_22 fl_round_to_nearest round_to_nearest_numeral
        power_int_minus field_simps)
qed

lemma first_quantile_index_rounded:
  "first_quantile_index InverseCDF
     (np_double round_to_nearest 7 (dh_double round_to_nearest 58 14)) = 30"
  "first_quantile_index InverseCDFAveragedSteps
     (np_double round_to_nearest 11 (dh_double round_to_nearest 15 22)) = 7"
proof -
  have "\<lceil>29 + 1 / 2 ^ 48 :: real\<rceil> = 30" by (intro ceiling_unique) simp_all
  then show "first_quantile_index InverseCDF
     (np_double round_to_nearest 7 (dh_double round_to_nearest 58 14)) = 30"
    by (simp only: first_quantile_index_def np_58_14_7) simp
  have "\<lfloor>15 / 2 - 1 / 2 ^ 50 + 1 / 2 :: real\<rfloor> = 7" by (intro floor_unique) simp_all
  moreover have "(0::real) \<le> 15 / 2 - 1 / 2 ^ 50" by simp
  ultimately show "first_quantile_index InverseCDFAveragedSteps
     (np_double round_to_nearest 11 (dh_double round_to_nearest 15 22)) = 7"
    by (simp only: first_quantile_index_def np_15_22_11 c_round_def) simp
qed
subsection \<open>Claims about errors and empty histograms\<close>

lemma derive_blocks_error:
  assumes "derive_table self mem histogramTab = (tab', Inl e)"
  shows "derive_blocks self mem before = (before', Inr cols) \<Longrightarrow>
         derive_blocks self mem (before @ (varName, Some (Table histogramTab)) # rest)
           = (before' @ (varName, Some (Table tab')) # rest, Inl e)"
proof (induction before arbitrary: before' cols)
  case Nil
  with assms show ?case by simp
next
  case (Cons b before)
  obtain name block where b: "b = (name, block)" by (cases b)
  show ?case
  proof (cases "SafeDownCast_vtkTable block")
    case None
    with Cons.prems b obtain rest' where
      r: "derive_blocks self mem before = (rest', Inr cols)" "before' = (name, block) # rest'"
      by (auto split: prod.splits)
    from Cons.IH [OF r(1)] None b r(2) show ?thesis by simp
  next
    case (Some tab)
    with Cons.prems b obtain t' quantCol rest' cols' where
      r: "derive_table self mem tab = (t', Inr quantCol)"
         "derive_blocks self mem before = (rest', Inr cols')"
         "before' = (name, Some (Table t')) # rest'"
      by (auto split: prod.splits sum.splits)
    from Cons.IH [OF r(2)] Some b r(1,3) show ?thesis by simp
  qed
qed

lemma Derive_returns_at_error:
  assumes "derive_blocks self mem before = (before', Inr cols)"
    and "derive_table self mem histogramTab = (tab', Inl e)"
    and "quantile_labels ToString mem (NumberOfIntervals self) = Some labels"
  shows "Derive ToString self mem (before @ (varName, Some (Table histogramTab)) # rest)
           = Aborted e (before' @ (varName, Some (Table tab')) # rest)"
  using derive_blocks_error [OF assms(2) assms(1), of varName rest] assms(3)
  by (simp add: Derive_def)

text \<open>
  The error of the rank cursor is reached only through a comparison with \<^verbatim>\<open>cdf[nRowHist]\<close>,
  one entry behind the array of \<open>nRowHist\<close> entries: the test \<^verbatim>\<open>rank > nRowHist\<close> comes
  after the loop condition has read the CDF at \<open>rank = nRowHist\<close>.
\<close>

lemma advance_rank_error:
  "advance_rank cdf nRowHist qIdx rank = Inl e \<Longrightarrow> rank \<le> nRowHist \<Longrightarrow>
     qIdx > cdf nRowHist \<and>
     e = InconsistentQuantileTable (nRowHist + 1) (cdf (nRowHist + 1)) qIdx"
proof (induction cdf nRowHist qIdx rank rule: advance_rank.induct)
  case (1 cdf nRowHist qIdx rank)
  show ?case
  proof (cases "qIdx > cdf rank")
    case False
    with "1.prems" show ?thesis by (simp add: advance_rank.simps [of cdf nRowHist qIdx rank])
  next
    case True
    show ?thesis
    proof (cases "rank + 1 > nRowHist")
      case over: True
      with "1.prems"(2) have r: "rank = nRowHist" by simp
      from True over "1.prems"(1)
      have "e = InconsistentQuantileTable (rank + 1) (cdf (rank + 1)) qIdx"
        by (simp add: advance_rank.simps [of cdf nRowHist qIdx rank])
      with True r show ?thesis by simp
    next
      case False
      with True "1.prems" have "advance_rank cdf nRowHist qIdx (rank + 1) = Inl e"
        by (simp add: advance_rank.simps [of cdf nRowHist qIdx rank])
      with "1.IH" True False show ?thesis by simp
    qed
  qed
qed

text \<open>
  C5 fails on the code. Take a model of two histogram tables, \<open>NumberOfIntervals = 4\<close>
  and \<open>InverseCDF\<close>: the table of \<open>x\<close> has only its cardinality row, the table of \<open>y\<close>
  holds the value 8 four times. For \<open>x\<close> the code compares the quantile index 0 with
  \<^verbatim>\<open>cdf[1]\<close>, behind the CDF array of one entry. If a negative number is found there the
  rank cursor exceeds the bound, the error is reported, and \<open>Derive\<close> returns: the table
  of \<open>y\<close> is left as it was (its cardinality row still holds \<open>-1\<close>, it has no column
  \<open>P\<close>) and no \<open>Quantiles\<close> block is appended, where the claim has the other columns
  and the \<open>Quantiles\<close> block unaffected. Otherwise both variables get their quantile
  column.
\<close>

theorem Derive_rank_error_leaves_Derive:
  "Derive ToString \<lparr>NumberOfIntervals = 4, QuantileDefinition = InverseCDF\<rparr> mem
     [(''x'', Some (Table [(''Value'', vtkDoubleArray [NaN]),
                          (''Cardinality'', vtkIdTypeArray [- 1])])),
      (''y'', Some (Table [(''Value'', vtkDoubleArray [NaN, Finite 8]),
                          (''Cardinality'', vtkIdTypeArray [- 1, 4])]))]
   = (if cdf_outside mem 1 < 0
      then Aborted (InconsistentQuantileTable 2 (cdf_outside mem 2) 0)
             [(''x'', Some (Table [(''Value'', vtkDoubleArray [NaN]),
                                  (''Cardinality'', vtkIdTypeArray [0]),
                                  (''P'', vtkDoubleArray [Finite (- 1)])])),
              (''y'', Some (Table [(''Value'', vtkDoubleArray [NaN, Finite 8]),
                                  (''Cardinality'', vtkIdTypeArray [- 1, 4])]))]
      else Derived
             [(''x'', Some (Table [(''Value'', vtkDoubleArray [NaN]),
                                  (''Cardinality'', vtkIdTypeArray [0]),
                                  (''P'', vtkDoubleArray [Finite (- 1)])])),
              (''y'', Some (Table [(''Value'', vtkDoubleArray [NaN, Finite 8]),
                                  (''Cardinality'', vtkIdTypeArray [4, 4]),
                                  (''P'', vtkDoubleArray [Finite (- 1), Finite 1])])),
              (''Quantiles'', Some (Table
                [(''Quantile'', vtkStringArray [''Minimum'', ''First Quartile'', ''Median'',
                    ''Third Quartile'', ''Maximum'']),
                 (''x'', vtkDoubleArray [double_outside mem 1, double_outside mem 1,
                    double_outside mem 1, double_outside mem 1, NaN]),
                 (''y'', vtkDoubleArray [Finite 8, Finite 8, Finite 8, Finite 8,
                    Finite 8])]))])"
  by (simp add: derive_eval)

text \<open>
  C6 fails on the code: a histogram table with only its cardinality row is not skipped.
  Take the model that the learn phase builds from a table whose numeric column \<open>x\<close> has
  no row, \<open>NumberOfIntervals = 4\<close> and \<open>InverseCDF\<close>. \<open>Derive\<close> writes the cardinality 0
  and the column \<open>P\<close> into the table (after the division \<open>1. / 0\<close>), and then compares
  the quantile index 0 with \<open>cdf[1]\<close>, one entry behind the CDF array of one entry. What
  is found there decides: a negative value leads to the error of the rank cursor, any
  other value to a quantile column for the variable whose first four values are read at
  index 1 of the \<open>Value\<close> column, one entry behind it, and whose last value is that of
  the cardinality row.
\<close>

theorem Derive_empty_histogram:
  "Derive ToString \<lparr>NumberOfIntervals = 4, QuantileDefinition = InverseCDF\<rparr> mem
     (learn_requests mem variant_less [(''x'', vtkDoubleArray [])] [''x''] [])
   = (if cdf_outside mem 1 < 0
      then Aborted (InconsistentQuantileTable 2 (cdf_outside mem 2) 0)
             [(''x'', Some (Table [(''Value'', vtkDoubleArray [NaN]),
                (''Cardinality'', vtkIdTypeArray [0]), (''P'', vtkDoubleArray [Finite (- 1)])]))]
      else Derived
             [(''x'', Some (Table [(''Value'', vtkDoubleArray [NaN]),
                (''Cardinality'', vtkIdTypeArray [0]), (''P'', vtkDoubleArray [Finite (- 1)])])),
              (''Quantiles'', Some (Table
                [(''Quantile'', vtkStringArray [''Minimum'', ''First Quartile'', ''Median'',
                    ''Third Quartile'', ''Maximum'']),
                 (''x'', vtkDoubleArray [double_outside mem 1, double_outside mem 1,
                    double_outside mem 1, double_outside mem 1, NaN])]))])"
  unfolding learn_requests_no_rows by (simp add: derive_eval)
section \<open>Facts about the test phase\<close>

subsection \<open>The cursor over the quantiles\<close>

lemma takeWhile_le_mono:
  fixes x y :: "'k::linorder"
  shows "y \<le> x \<Longrightarrow>
         length (takeWhile (\<lambda>b. b \<le> y) qs) \<le> length (takeWhile (\<lambda>b. b \<le> x) qs)"
  by (induction qs) auto

lemma advance_currentQ_run:
  "c \<le> length (takeWhile (\<lambda>b. b \<le> x) qs) \<Longrightarrow>
     advance_currentQ qs x c = length (takeWhile (\<lambda>b. b \<le> x) qs)"
proof (induction qs x c rule: advance_currentQ.induct)
  case (1 qs x c)
  let ?T = "length (takeWhile (\<lambda>b. b \<le> x) qs)"
  have T_le: "?T \<le> length qs" by (rule length_takeWhile_le)
  show ?case
  proof (cases "c < length qs \<and> x \<ge> qs ! c")
    case True
    have "c \<noteq> ?T"
    proof
      assume "c = ?T"
      with True have "?T < length qs" by simp
      from nth_length_takeWhile [OF this] have "\<not> qs ! ?T \<le> x" .
      with True \<open>c = ?T\<close> show False by simp
    qed
    with "1.prems" have "Suc c \<le> ?T" by simp
    with "1.IH" True have "advance_currentQ qs x (Suc c) = ?T" by simp
    with True show ?thesis by (subst advance_currentQ.simps) simp
  next
    case False
    have "c = ?T"
    proof (rule ccontr)
      assume "c \<noteq> ?T"
      with "1.prems" have lt: "c < ?T" by simp
      then have "takeWhile (\<lambda>b. b \<le> x) qs ! c = qs ! c" by (rule takeWhile_nth)
      moreover from lt have "takeWhile (\<lambda>b. b \<le> x) qs ! c \<in> set (takeWhile (\<lambda>b. b \<le> x) qs)"
        by simp
      then have "takeWhile (\<lambda>b. b \<le> x) qs ! c \<le> x" by (rule set_takeWhileD [THEN conjunct2])
      ultimately have "qs ! c \<le> x" by simp
      with False lt T_le show False by simp
    qed
    moreover from False have "advance_currentQ qs x c = c"
      by (subst advance_currentQ.simps) auto
    ultimately show ?thesis by simp
  qed
qed

lemma sorted_filter_takeWhile:
  fixes x :: "'k::linorder"
  shows "sorted qs \<Longrightarrow> filter (\<lambda>b. b \<le> x) qs = takeWhile (\<lambda>b. b \<le> x) qs"
proof (induction qs)
  case Nil
  then show ?case by simp
next
  case (Cons q qs)
  show ?case
  proof (cases "q \<le> x")
    case True
    with Cons show ?thesis by simp
  next
    case False
    with Cons.prems have "\<forall>b \<in> set qs. \<not> b \<le> x" by auto
    then have "filter (\<lambda>b. b \<le> x) qs = []" by (simp add: filter_empty_conv)
    with False show ?thesis by simp
  qed
qed

subsection \<open>The walk over the merged CDF\<close>

lemma cdf_walk_append:
  "cdf_walk q0 qs inv_nq (m1 @ m2) state = cdf_walk q0 qs inv_nq m2 (cdf_walk q0 qs inv_nq m1 state)"
proof (induction m1 arbitrary: state)
  case Nil
  then show ?case by simp
next
  case (Cons p m1)
  obtain x ecdf where p: "p = (x, ecdf)" by (cases p)
  obtain currentQ mcdf Dmn where s: "state = (currentQ, mcdf, Dmn)" by (cases state)
  show ?case unfolding p s by (simp add: Let_def Cons.IH)
qed

lemma cdf_walk_state:
  "sorted (map fst points) \<Longrightarrow>
   cdf_walk q0 qs inv_nq points (0, 0, 0) = (currentQ, mcdf, Dmn) \<Longrightarrow>
     (points = [] \<or> fst (last points) < q0 \<longrightarrow> currentQ = 0 \<and> mcdf = 0) \<and>
     (points \<noteq> [] \<and> q0 \<le> fst (last points) \<longrightarrow>
        currentQ = length (takeWhile (\<lambda>b. b \<le> fst (last points)) qs) \<and>
        mcdf = real currentQ * inv_nq)"
proof (induction points arbitrary: currentQ mcdf Dmn rule: rev_induct)
  case Nil
  then show ?case by simp
next
  case (snoc p points)
  obtain x ecdf where p: "p = (x, ecdf)" by (cases p)
  obtain c0 m0 D0 where st: "cdf_walk q0 qs inv_nq points (0, 0, 0) = (c0, m0, D0)"
    by (cases "cdf_walk q0 qs inv_nq points (0, 0, 0)")
  from snoc.prems(1) p have srt: "sorted (map fst points)"
    and le: "\<forall>y \<in> set (map fst points). y \<le> x"
    by (auto simp add: sorted_append)
  note ih = snoc.IH [OF srt st]
  have last_le: "points \<noteq> [] \<Longrightarrow> fst (last points) \<le> x"
    using le by auto
  from snoc.prems(2) have step:
    "cdf_walk q0 qs inv_nq [(x, ecdf)] (c0, m0, D0) = (currentQ, mcdf, Dmn)"
    unfolding p by (simp only: cdf_walk_append st)
  show ?case
  proof (cases "q0 \<le> x")
    case False
    with step have eq: "currentQ = c0" "mcdf = m0" by (simp_all add: Let_def)
    have "points = [] \<or> fst (last points) < q0"
      using False last_le by (cases "points = []") auto
    with ih eq False p show ?thesis by auto
  next
    case True
    with step have eq: "currentQ = advance_currentQ qs x c0" "mcdf = real currentQ * inv_nq"
      by (auto simp add: Let_def)
    have "c0 \<le> length (takeWhile (\<lambda>b. b \<le> x) qs)"
    proof (cases "points \<noteq> [] \<and> q0 \<le> fst (last points)")
      case True
      with ih have "c0 = length (takeWhile (\<lambda>b. b \<le> fst (last points)) qs)" by simp
      with takeWhile_le_mono [OF last_le, of qs] True show ?thesis by simp
    next
      case False
      with ih have "c0 = 0" by auto
      then show ?thesis by simp
    qed
    from True have nl: "\<not> x < q0" by (simp add: not_less)
    from advance_currentQ_run [OF \<open>c0 \<le> length (takeWhile (\<lambda>b. b \<le> x) qs)\<close>] eq
    have "currentQ = length (takeWhile (\<lambda>b. b \<le> x) qs)" "mcdf = real currentQ * inv_nq"
      by simp_all
    with nl p show ?thesis by simp
  qed
qed

subsection \<open>Claim about the model CDF\<close>

text \<open>
  C1 (as the code has it). Let the quantile table have \<open>N + 1\<close> rows, the breakpoints,
  in ascending order, and let the walk visit the empirical points in ascending order,
  points and breakpoints being compared in one linear order of the values. After the
  iteration of the walk for an empirical point the cursor \<open>currentQ\<close> is the number of
  breakpoints that are at most the point, which is 0 below the minimum breakpoint, and
  the model CDF is \<open>currentQ / (N + 1)\<close>: the cursor divided by the number of
  breakpoints, not by \<open>N\<close>.
\<close>

theorem Test_model_cdf:
  fixes quantiles :: "'k::linorder list"
  assumes "length quantiles = Suc N"
    and "sorted (map fst (points @ [(x, ecdf)]))"
    and "sorted quantiles"
    and "cdf_distance beyond quantiles (Suc N) (points @ [(x, ecdf)]) = (currentQ, mcdf, Dmn)"
  shows "currentQ = length (filter (\<lambda>b. b \<le> x) quantiles) \<and>
         mcdf = real currentQ / real (N + 1) \<and>
         (x < quantiles ! 0 \<longrightarrow> currentQ = 0 \<and> mcdf = 0)"
proof -
  from assms(1) have q0: "read_at beyond quantiles 0 = quantiles ! 0"
    by (simp add: read_at_def)
  from assms(4) have w: "cdf_walk (quantiles ! 0) quantiles (1 / real (Suc N))
       (points @ [(x, ecdf)]) (0, 0, 0) = (currentQ, mcdf, Dmn)"
    by (simp add: cdf_distance_def q0)
  from cdf_walk_state [OF assms(2) w]
  have below: "x < quantiles ! 0 \<Longrightarrow> mcdf = 0 \<and> currentQ = 0"
    and above: "quantiles ! 0 \<le> x \<Longrightarrow>
        currentQ = length (takeWhile (\<lambda>b. b \<le> x) quantiles) \<and>
        mcdf = real currentQ * (1 / real (Suc N))"
    by simp_all
  note ft = sorted_filter_takeWhile [OF assms(3), of x]
  show ?thesis
  proof (cases "quantiles ! 0 \<le> x")
    case True
    from above [OF True] have c: "currentQ = length (filter (\<lambda>b. b \<le> x) quantiles)"
      and m: "mcdf = real currentQ / real (N + 1)" by (simp_all add: ft)
    from True have "\<not> x < quantiles ! 0" by (simp add: not_less)
    with c m show ?thesis by blast
  next
    case False
    then have lt: "x < quantiles ! 0" by (simp add: not_le)
    from assms(1) obtain q qs where qs: "quantiles = q # qs" by (cases quantiles) auto
    with lt have "\<not> q \<le> x" by (simp add: not_le)
    then have "takeWhile (\<lambda>b. b \<le> x) quantiles = []" by (simp add: qs)
    then have "length (filter (\<lambda>b. b \<le> x) quantiles) = 0" by (simp add: ft)
    with below [OF lt] lt show ?thesis by simp
  qed
qed

theorem Test_model_cdf_witness:
  "length [''a'', ''c'', ''e''] = Suc 2 \<and>
   sorted (map fst ([(''0'', 1 / 4 :: real), (''a'', 2 / 4)] @ [(''d'', 3 / 4)])) \<and>
   sorted [''a'', ''c'', ''e''] \<and>
   cdf_distance (\<lambda>i. []) [''a'', ''c'', ''e''] (Suc 2)
     ([(''0'', 1 / 4), (''a'', 2 / 4)] @ [(''d'', 3 / 4)])
     = (2, 2 / 3, 1 / 4) \<and>
   length (filter (\<lambda>b. b \<le> ''d'') [''a'', ''c'', ''e'']) = 2 \<and>
   cdf_distance (\<lambda>i. []) [''a'', ''c'', ''e''] (Suc 2) ([] @ [(''0'', 1 / 4)])
     = (0, 0, 1 / 4) \<and>
   ''0'' < [''a'', ''c'', ''e''] ! 0 \<and>
   length (filter (\<lambda>b. b \<le> ''0'') [''a'', ''c'', ''e'']) = 0"
  using Test_model_cdf [of "[''a'', ''c'', ''e'']" 2 "[(''0'', 1 / 4), (''a'', 2 / 4)]" "''d''"
      "3 / 4" "\<lambda>i. []" 2 "2 / 3" "1 / 4"]
    Test_model_cdf [of "[''a'', ''c'', ''e'']" 2 "[]" "''0''" "1 / 4" "\<lambda>i. []" 0 0 "1 / 4"]
  by (simp add: cdf_distance_def read_at_def advance_currentQ.simps Let_def)

text \<open>
  C1 as stated fails on the breakpoints a, c, e (\<open>N = 2\<close>): at the empirical point a, the
  minimum breakpoint, one breakpoint is at most the point and the model CDF is 1/3, not
  \<open>currentQ / N = 1/2\<close>.
\<close>

theorem Test_model_cdf_counterexample:
  "cdf_distance (\<lambda>i. []) [''a'', ''c'', ''e''] 3 [(''a'', 1 / 3)] = (1, 1 / 3, 0) \<and>
   length (filter (\<lambda>b. b \<le> ''a'') [''a'', ''c'', ''e'']) = 1 \<and>
   (1 / 3 :: real) \<noteq> real 1 / real 2"
  by (simp add: cdf_distance_def read_at_def advance_currentQ.simps Let_def)

subsection \<open>The order of the empirical CDF\<close>

text \<open>
  C7 fails on the code for numeric columns. The column of the two integers 9 and 10
  (\<open>n_test = 2\<close>) gets an empirical CDF whose entries are visited and summed in the order
  of the texts: first 10 with the cumulated probability 1/2, then 9 with 1. In numeric
  order 9 comes first, with 1/2, and 10 ends at 1.
\<close>

theorem empirical_cdf_string_order:
  "empirical_cdf decimal_ToString (vtkIdTypeArray [9, 10]) 2
     = ([(''10'', 1 / 2), (''9'', 1)], 1)"
  by (simp add: empirical_cdf_def decimal.simps)

subsection \<open>Claim about the last block\<close>

lemma not_last_block_cases:
  "\<not> last_block_is_Quantiles_table inMeta \<longleftrightarrow>
     (inMeta = None \<or>
      (\<exists>blocks. inMeta = Some blocks \<and>
         (length blocks < 1 \<or> SafeDownCast_vtkTable (snd (last blocks)) = None \<or>
          fst (last blocks) \<noteq> ''Quantiles'')))"
proof (cases inMeta)
  case None
  then show ?thesis by simp
next
  case (Some blocks)
  have "SafeDownCast_vtkTable (snd (last blocks)) = None \<longleftrightarrow>
        \<not> (case snd (last blocks) of Some (Table quantileTab) \<Rightarrow> True | _ \<Rightarrow> False)"
    by (cases "snd (last blocks)" rule: SafeDownCast_vtkTable.cases) simp_all
  with Some show ?thesis by auto
qed

lemma three_columns_longer:
  "AddColumn (AddColumn (AddColumn out n1 c1) n2 c2) n3 c3 \<noteq> out"
proof
  assume "AddColumn (AddColumn (AddColumn out n1 c1) n2 c2) n3 c3 = out"
  then have "length (AddColumn (AddColumn (AddColumn out n1 c1) n2 c2) n3 c3) = length out"
    by simp
  then show False by (simp add: AddColumn_def)
qed

text \<open>
  C10. When the model is absent, has no block, or its last block is absent, is not a
  table, or is not named \<open>Quantiles\<close>, \<open>Test\<close> returns with the output table as it was
  and \<open>SelectAssessFunctor\<close> leaves the null functor, whatever the earlier blocks are.
  Conversely \<open>Test\<close> does something else than return with the output table it was given
  exactly when the last block is a table named \<open>Quantiles\<close>, and only then can a functor
  be chosen.
\<close>

theorem Test_Assess_last_block:
  "(\<not> last_block_is_Quantiles_table inMeta \<longrightarrow>
      Test ToString mem requests inData inMeta outMeta = Inr outMeta \<and>
      SelectAssessFunctor mem outData inMeta rowNames = None) \<and>
   (Test ToString mem requests inData inMeta (Some out) \<noteq> Inr (Some out) \<longleftrightarrow>
      last_block_is_Quantiles_table inMeta) \<and>
   (SelectAssessFunctor mem outData inMeta rowNames \<noteq> None \<longrightarrow>
      last_block_is_Quantiles_table inMeta)"
proof -
  have neg: "Test ToString mem requests inData inMeta outMeta = Inr outMeta \<and>
             SelectAssessFunctor mem outData inMeta rowNames = None"
    if "\<not> last_block_is_Quantiles_table inMeta" for outMeta
    using that unfolding not_last_block_cases
    by (auto simp add: Test_def SelectAssessFunctor_def split: option.splits)
  have pos: "Test ToString mem requests inData inMeta (Some out) \<noteq> Inr (Some out)"
    if "last_block_is_Quantiles_table inMeta"
  proof -
    from that obtain blocks quantileTab where b: "inMeta = Some blocks" "blocks \<noteq> []"
      "snd (last blocks) = Some (Table quantileTab)" "fst (last blocks) = ''Quantiles''"
      by (cases inMeta) (auto split: option.splits vtkDataObject.splits)
    then show ?thesis
      by (simp add: Test_def three_columns_longer split: sum.splits)
  qed
  have c1: "\<not> last_block_is_Quantiles_table inMeta \<longrightarrow>
      Test ToString mem requests inData inMeta outMeta = Inr outMeta \<and>
      SelectAssessFunctor mem outData inMeta rowNames = None"
    using neg [of outMeta] by simp
  have c2: "Test ToString mem requests inData inMeta (Some out) \<noteq> Inr (Some out) \<longleftrightarrow>
      last_block_is_Quantiles_table inMeta"
    using neg [of "Some out"] pos by (cases "last_block_is_Quantiles_table inMeta") simp_all
  have c3: "SelectAssessFunctor mem outData inMeta rowNames \<noteq> None \<longrightarrow>
      last_block_is_Quantiles_table inMeta"
    using neg [of outMeta] by (cases "last_block_is_Quantiles_table inMeta") simp_all
  from c1 c2 c3 show ?thesis by (intro conjI)
qed

theorem Test_Assess_last_block_witness:
  "\<not> last_block_is_Quantiles_table
       (Some [(''Quantiles'', Some (Table [(''Quantile'', vtkStringArray [''Minimum'', ''Maximum'']),
                                          (''x'', vtkStringArray [''a'', ''c''])])),
              (''x'', Some (Table [(''Value'', vtkStringArray ['''', ''a'', ''c'']),
                                  (''Cardinality'', vtkIdTypeArray [2, 1, 1])]))]) \<and>
   Test decimal_ToString
     \<lparr>cdf_outside = (\<lambda>i. 0), double_outside = (\<lambda>i. Finite 0), string_outside = (\<lambda>i. []),
      variant_outside = (\<lambda>i. VariantInt 0), rounding = round_to_nearest\<rparr>
     [''x''] [(''x'', vtkStringArray [''a'', ''c''])]
     (Some [(''Quantiles'', Some (Table [(''Quantile'', vtkStringArray [''Minimum'', ''Maximum'']),
                                        (''x'', vtkStringArray [''a'', ''c''])])),
            (''x'', Some (Table [(''Value'', vtkStringArray ['''', ''a'', ''c'']),
                                (''Cardinality'', vtkIdTypeArray [2, 1, 1])]))])
     (Some []) = Inr (Some []) \<and>
   SelectAssessFunctor
     \<lparr>cdf_outside = (\<lambda>i. 0), double_outside = (\<lambda>i. Finite 0), string_outside = (\<lambda>i. []),
      variant_outside = (\<lambda>i. VariantInt 0), rounding = round_to_nearest\<rparr>
     [(''x'', vtkStringArray [''a'', ''c''])]
     (Some [(''Quantiles'', Some (Table [(''Quantile'', vtkStringArray [''Minimum'', ''Maximum'']),
                                        (''x'', vtkStringArray [''a'', ''c''])])),
            (''x'', Some (Table [(''Value'', vtkStringArray ['''', ''a'', ''c'']),
                                (''Cardinality'', vtkIdTypeArray [2, 1, 1])]))])
     [''x''] = None \<and>
   last_block_is_Quantiles_table
       (Some [(''x'', Some (Table [(''Value'', vtkStringArray ['''', ''a'', ''c'']),
                                  (''Cardinality'', vtkIdTypeArray [2, 1, 1])])),
              (''Quantiles'', Some (Table [(''Quantile'', vtkStringArray [''Minimum'', ''Maximum'']),
                                          (''x'', vtkStringArray [''a'', ''c''])]))]) \<and>
   Test decimal_ToString
     \<lparr>cdf_outside = (\<lambda>i. 0), double_outside = (\<lambda>i. Finite 0), string_outside = (\<lambda>i. []),
      variant_outside = (\<lambda>i. VariantInt 0), rounding = round_to_nearest\<rparr>
     [''x''] [(''x'', vtkStringArray [''a'', ''c''])]
     (Some [(''x'', Some (Table [(''Value'', vtkStringArray ['''', ''a'', ''c'']),
                                (''Cardinality'', vtkIdTypeArray [2, 1, 1])])),
            (''Quantiles'', Some (Table [(''Quantile'', vtkStringArray [''Minimum'', ''Maximum'']),
                                        (''x'', vtkStringArray [''a'', ''c''])]))])
     (Some [])
     = Inr (Some [(''Variable'', vtkStringArray [''x'']),
                  (''Maximum Distance'', vtkDoubleArray [Finite 0]),
                  (''Kolmogorov-Smirnov'', vtkDoubleArray [Finite 0])]) \<and>
   SelectAssessFunctor
     \<lparr>cdf_outside = (\<lambda>i. 0), double_outside = (\<lambda>i. Finite 0), string_outside = (\<lambda>i. []),
      variant_outside = (\<lambda>i. VariantInt 0), rounding = round_to_nearest\<rparr>
     [(''x'', vtkStringArray [''a'', ''c''])]
     (Some [(''x'', Some (Table [(''Value'', vtkStringArray ['''', ''a'', ''c'']),
                                (''Cardinality'', vtkIdTypeArray [2, 1, 1])])),
            (''Quantiles'', Some (Table [(''Quantile'', vtkStringArray [''Minimum'', ''Maximum'']),
                                        (''x'', vtkStringArray [''a'', ''c''])]))])
     [''x'']
     = Some (StringArrayQuantizer (vtkStringArray [''a'', ''c'']) (vtkStringArray [''a'', ''c'']))"
  using Test_Assess_last_block [of
     "Some [(''Quantiles'', Some (Table [(''Quantile'', vtkStringArray [''Minimum'', ''Maximum'']),
                                        (''x'', vtkStringArray [''a'', ''c''])])),
            (''x'', Some (Table [(''Value'', vtkStringArray ['''', ''a'', ''c'']),
                                (''Cardinality'', vtkIdTypeArray [2, 1, 1])]))]"
     decimal_ToString
     "\<lparr>cdf_outside = (\<lambda>i. 0), double_outside = (\<lambda>i. Finite 0), string_outside = (\<lambda>i. []),
      variant_outside = (\<lambda>i. VariantInt 0), rounding = round_to_nearest\<rparr>"
     "[''x'']" "[(''x'', vtkStringArray [''a'', ''c''])]" "Some []"
     "[(''x'', vtkStringArray [''a'', ''c''])]" "[''x'']" "[]"]
  by (simp add: Test_def SelectAssessFunctor_def GetColumnByName_def GetNumberOfRows_def
      AddColumn_def test_column_def empirical_cdf_def cdf_distance_def read_at_def
      advance_currentQ.simps Let_def)

end
